theory Spec2Isabelle
  imports Main "HOL-Library.Sublist"
begin

section \<open>Python strings\<close>

text \<open>
  A Python \<open>str\<close> is modelled as a \<open>string\<close> whose characters stand for the code
  points below 256. On these, \<open>str.isspace\<close>, \<open>str.strip\<close> and \<open>str.lower\<close> are
  written out as Python defines them; the suffixes the handler looks for are ASCII.
\<close>

definition isspace :: "char \<Rightarrow> bool" where
  "isspace c =
     (let n = (of_char c :: nat)
      in (9 \<le> n \<and> n \<le> 13) \<or> (28 \<le> n \<and> n \<le> 32) \<or> n = 133 \<or> n = 160)"

definition strip :: "string \<Rightarrow> string" where
  "strip s = rev (dropWhile isspace (rev (dropWhile isspace s)))"

definition lower_char :: "char \<Rightarrow> char" where
  "lower_char c =
     (let n = (of_char c :: nat)
      in if (65 \<le> n \<and> n \<le> 90) \<or> (192 \<le> n \<and> n \<le> 222 \<and> n \<noteq> 215)
         then char_of (n + 32) else c)"

definition lower :: "string \<Rightarrow> string" where
  "lower s = map lower_char s"

definition endswith :: "string \<Rightarrow> string \<Rightarrow> bool" where
  "endswith s suf =
     (length suf \<le> length s \<and> drop (length s - length suf) s = suf)"

definition endswith_any :: "string \<Rightarrow> string list \<Rightarrow> bool" where
  "endswith_any s sufs = list_ex (endswith s) sufs"

text \<open>\<open>str(n)\<close> of a non-negative integer, as the f-strings format \<open>index\<close>.\<close>

fun str_nat :: "nat \<Rightarrow> string" where
  "str_nat n =
     (if n < 10 then [char_of (48 + n)]
      else str_nat (n div 10) @ [char_of (48 + n mod 10)])"

declare str_nat.simps [simp del]

definition path_join :: "string \<Rightarrow> string \<Rightarrow> string" where
  "path_join dir name = dir @ ''/'' @ name"

section \<open>Exceptions, messages and the calls to the outside\<close>

text \<open>
  The exception classes the handler can meet. \<open>CalledProcessError\<close> carries the exit
  status of the tool; every class here is a subclass of \<open>Exception\<close>, so the clause
  \<open>except Exception\<close> catches all of them and \<open>except subprocess.CalledProcessError\<close>
  only the first. A tool that cannot be launched raises \<open>FileNotFoundError\<close>.
\<close>

datatype exn =
    CalledProcessError int
  | FileNotFoundError
  | AttributeError
  | TelegramError string
  | OtherError string

fun is_CalledProcessError :: "exn \<Rightarrow> bool" where
  "is_CalledProcessError (CalledProcessError rc) = True"
| "is_CalledProcessError e = False"

text \<open>
  The texts the handler sends, one constructor per string literal or f-string of the
  source, with the interpolated values as arguments:
  \<^item> \<open>Unauthorized\<close>: "Unauthorized. You are not allowed to use this bot."
  \<^item> \<open>NoDocumentDetected\<close>: "No document detected. Please send a TXT file with URLs."
  \<^item> \<open>NeedTxtExtension\<close>: "Please send a file with .txt extension containing URLs."
  \<^item> \<open>NoValidUrls\<close>: "No valid mpd or m3u8 URLs found in the file. ..."
  \<^item> \<open>FoundUrls n\<close>: "Found *n* valid URLs. Starting downloads..."
  \<^item> \<open>Downloading index ntotal url\<close>: "Downloading (index/ntotal): url"
  \<^item> \<open>FailedDownload url\<close>: "Failed to download or convert URL: url"
  \<^item> \<open>FailedSend index e\<close>: "Failed to send video index. Error: e"
  \<^item> \<open>AllProcessed\<close>: "All downloads processed."
\<close>

datatype msg_text =
    Unauthorized
  | NoDocumentDetected
  | NeedTxtExtension
  | NoValidUrls
  | FoundUrls nat
  | Downloading nat nat string
  | FailedDownload string
  | FailedSend nat exn
  | AllProcessed

text \<open>
  The calls that leave the handler. A message object returned by \<open>reply_text\<close> is
  identified by the text it was created with, so \<open>DeleteMessage t\<close> is
  \<open>delete()\<close> on the message created with text \<open>t\<close>.
\<close>

datatype call =
    ReplyText msg_text
  | GetFile string
  | TemporaryDirectory
  | DownloadToDrive string
  | ReadLines string
  | SendChatAction
  | SubprocessRun "string list"
  | OpenFile string
  | SendVideo string nat nat
  | DeleteMessage msg_text

datatype result = Returned | Raised exn

type_synonym event = "call \<times> result"

text \<open>
  The outcome of an item. The source keeps no list of results: an item's outcome is the
  branch its iteration takes (the \<open>except CalledProcessError\<close> handler, the
  \<open>except Exception\<close> handler, or \<open>send_video\<close> returning). The state below keeps
  them in \<open>results\<close>, a history variable that no branch of the handler reads.
\<close>

datatype outcome = Delivered | TranscodeFailed | DeliveryFailed exn

section \<open>The environment and the state\<close>

text \<open>
  The environment fixes what the outside does: \<open>raises env k c\<close> is the exception
  that call \<open>c\<close> raises when made during iteration \<open>k\<close> of the loop (\<open>k = 0\<close>
  outside the loop), or \<open>None\<close> when it returns; within one iteration no call is made
  twice. \<open>file_lines\<close> is what \<open>readlines()\<close> returns for the downloaded file,
  \<open>tmpdir_name\<close> the name of the temporary directory, and \<open>ffmpeg_output env k\<close>
  tells whether the tool run of iteration \<open>k\<close> leaves a file at its output path
  (whatever its exit status).
\<close>

record env =
  raises :: "nat \<Rightarrow> call \<Rightarrow> exn option"
  tmpdir_name :: string
  file_lines :: "string list"
  ffmpeg_output :: "nat \<Rightarrow> bool"

text \<open>
  \<open>trace\<close> lists the calls made so far with their results, in order. \<open>dirs\<close> and
  \<open>files\<close> are the file system: the paths of the directories and of the files that exist.
\<close>

record state =
  trace :: "event list"
  results :: "outcome list"
  dirs :: "string list"
  files :: "string list"

definition initial :: state where
  "initial = \<lparr>trace = [], results = [], dirs = [], files = []\<rparr>"

type_synonym 'a prog = "state \<Rightarrow> (exn + 'a) \<times> state"

definition succeed :: "'a \<Rightarrow> 'a prog" where
  "succeed x s = (Inr x, s)"

definition then_do :: "'a prog \<Rightarrow> ('a \<Rightarrow> 'b prog) \<Rightarrow> 'b prog" where
  "then_do m f s =
     (case m s of
        (Inl e, s') \<Rightarrow> (Inl e, s')
      | (Inr x, s') \<Rightarrow> f x s')"

text \<open>\<open>try: m except C as e: handler e\<close>, where \<open>catches\<close> tells the classes \<open>C\<close>.\<close>

definition try_except :: "'a prog \<Rightarrow> (exn \<Rightarrow> bool) \<Rightarrow> (exn \<Rightarrow> 'a prog) \<Rightarrow> 'a prog" where
  "try_except m catches handler s =
     (case m s of
        (Inl e, s') \<Rightarrow> if catches e then handler e s' else (Inl e, s')
      | (Inr x, s') \<Rightarrow> (Inr x, s'))"

definition perform :: "env \<Rightarrow> nat \<Rightarrow> call \<Rightarrow> unit prog" where
  "perform env k c s =
     (case raises env k c of
        None \<Rightarrow> (Inr (), s\<lparr>trace := trace s @ [(c, Returned)]\<rparr>)
      | Some e \<Rightarrow> (Inl e, s\<lparr>trace := trace s @ [(c, Raised e)]\<rparr>))"

definition record_outcome :: "outcome \<Rightarrow> unit prog" where
  "record_outcome oc s = (Inr (), s\<lparr>results := results s @ [oc]\<rparr>)"

text \<open>A file is written at path \<open>p\<close>, wherever that is.\<close>

definition write_file :: "string \<Rightarrow> state \<Rightarrow> state" where
  "write_file p s = s\<lparr>files := List.insert p (files s)\<rparr>"

text \<open>The path \<open>p\<close> lies below the directory \<open>dir\<close>.\<close>

definition is_below :: "string \<Rightarrow> string \<Rightarrow> bool" where
  "is_below dir p = prefix (dir @ ''/'') p"

text \<open>\<open>shutil.rmtree(dir)\<close>: the directory goes, with everything below it.\<close>

definition rmtree :: "string \<Rightarrow> state \<Rightarrow> state" where
  "rmtree dir s =
     s\<lparr>dirs := filter (\<lambda>d. d \<noteq> dir \<and> \<not> is_below dir d) (dirs s),
       files := filter (\<lambda>p. \<not> is_below dir p) (files s)\<rparr>"

section \<open>The library calls\<close>

definition reply_text :: "env \<Rightarrow> nat \<Rightarrow> msg_text \<Rightarrow> msg_text prog" where
  "reply_text env k t = then_do (perform env k (ReplyText t)) (\<lambda>_. succeed t)"

definition delete_message :: "env \<Rightarrow> nat \<Rightarrow> msg_text \<Rightarrow> unit prog" where
  "delete_message env k msg = perform env k (DeleteMessage msg)"

definition get_file :: "env \<Rightarrow> string \<Rightarrow> unit prog" where
  "get_file env fid = perform env 0 (GetFile fid)"

definition download_to_drive :: "env \<Rightarrow> string \<Rightarrow> unit prog" where
  "download_to_drive env p =
     then_do (perform env 0 (DownloadToDrive p)) (\<lambda>_ s. (Inr (), write_file p s))"

definition readlines :: "env \<Rightarrow> string \<Rightarrow> (string list) prog" where
  "readlines env p =
     then_do (perform env 0 (ReadLines p)) (\<lambda>_. succeed (file_lines env))"

definition send_chat_action :: "env \<Rightarrow> nat \<Rightarrow> unit prog" where
  "send_chat_action env k = perform env k SendChatAction"

text \<open>
  \<open>subprocess.run(cmd, check=True)\<close>: raises \<open>CalledProcessError\<close> on a non-zero exit
  status and another exception when the tool cannot be launched.
\<close>

definition subprocess_run :: "env \<Rightarrow> nat \<Rightarrow> string list \<Rightarrow> string \<Rightarrow> unit prog" where
  "subprocess_run env k cmd out s =
     perform env k (SubprocessRun cmd) (if ffmpeg_output env k then write_file out s else s)"

definition open_rb :: "env \<Rightarrow> nat \<Rightarrow> string \<Rightarrow> unit prog" where
  "open_rb env k p = perform env k (OpenFile p)"

definition send_video :: "env \<Rightarrow> nat \<Rightarrow> string \<Rightarrow> nat \<Rightarrow> nat \<Rightarrow> unit prog" where
  "send_video env k p index ntotal = perform env k (SendVideo p index ntotal)"

text \<open>
  \<open>with tempfile.TemporaryDirectory() as tmpdir: body\<close>: the directory is created on
  entry, under the name the environment gives, and removed, with everything under it,
  when the block is left, by a return or by an exception.
\<close>

definition with_temporary_directory :: "env \<Rightarrow> (string \<Rightarrow> 'a prog) \<Rightarrow> 'a prog" where
  "with_temporary_directory env body s =
     (case perform env 0 TemporaryDirectory s of
        (Inl e, s1) \<Rightarrow> (Inl e, s1)
      | (Inr _, s1) \<Rightarrow>
          (case body (tmpdir_name env)
                  (s1\<lparr>dirs := List.insert (tmpdir_name env) (dirs s1)\<rparr>) of
             (r, s2) \<Rightarrow> (r, rmtree (tmpdir_name env) s2)))"

section \<open>The handler\<close>

text \<open>
  The parts of an update that the handler reads. The name of a document is optional:
  \<open>document.file_name\<close> is \<open>None\<close> for a document sent without one.
\<close>

record tg_document =
  file_name :: "string option"
  file_id :: string

record tg_message =
  document :: "tg_document option"

record tg_user =
  user_id :: int

record update =
  effective_user :: "tg_user option"
  message :: "tg_message option"

definition OWNER_ID :: int where
  "OWNER_ID = 7833842279"

definition owner_only :: "(env \<Rightarrow> update \<Rightarrow> unit prog) \<Rightarrow> env \<Rightarrow> update \<Rightarrow> unit prog" where
  "owner_only func env upd =
     (if (case effective_user upd of None \<Rightarrow> True | Some user \<Rightarrow> user_id user \<noteq> OWNER_ID)
      then (case message upd of
              Some _ \<Rightarrow> then_do (reply_text env 0 Unauthorized) (\<lambda>_. succeed ())
            | None \<Rightarrow> succeed ())
      else func env upd)"

definition filter_urls :: "string list \<Rightarrow> string list" where
  "filter_urls lines =
     map strip (filter (\<lambda>line. endswith_any (lower (strip line)) [''.mpd'', ''.m3u8'']) lines)"

definition ffmpeg_cmd :: "string \<Rightarrow> string \<Rightarrow> string list" where
  "ffmpeg_cmd url video_path =
     [''ffmpeg'', ''-hide_banner'', ''-loglevel'', ''error'', ''-i'', url,
      ''-c:v'', ''libx264'', ''-c:a'', ''aac'', ''-preset'', ''veryfast'', ''-y'', video_path]"

definition video_path :: "string \<Rightarrow> nat \<Rightarrow> string" where
  "video_path tmpdir index = path_join tmpdir (''video_'' @ str_nat index @ ''.mp4'')"

text \<open>
  The first \<open>try\<close> statement of the loop body: the chat action and the tool run, with
  the handler for \<open>CalledProcessError\<close>. It yields \<open>True\<close> when the handler ran,
  which ends the iteration (\<open>continue\<close>).
\<close>

definition transcode_step :: "env \<Rightarrow> string \<Rightarrow> nat \<Rightarrow> string \<Rightarrow> msg_text \<Rightarrow> bool prog" where
  "transcode_step env tmpdir index url progress_msg =
     try_except
       (then_do (send_chat_action env index) (\<lambda>_.
        then_do (subprocess_run env index (ffmpeg_cmd url (video_path tmpdir index))
                   (video_path tmpdir index)) (\<lambda>_.
        succeed False)))
       is_CalledProcessError
       (\<lambda>_.
        then_do (record_outcome TranscodeFailed) (\<lambda>_.
        then_do (reply_text env index (FailedDownload url)) (\<lambda>_.
        then_do (delete_message env index progress_msg) (\<lambda>_.
        succeed True))))"

text \<open>
  The second \<open>try\<close> statement: the file is opened and sent, with the handler for
  \<open>Exception\<close>.
\<close>

definition delivery_step :: "env \<Rightarrow> string \<Rightarrow> nat \<Rightarrow> nat \<Rightarrow> unit prog" where
  "delivery_step env tmpdir ntotal index =
     try_except
       (then_do (open_rb env index (video_path tmpdir index)) (\<lambda>_.
        then_do (send_video env index (video_path tmpdir index) index ntotal) (\<lambda>_.
        record_outcome Delivered)))
       (\<lambda>_. True)
       (\<lambda>e.
        then_do (record_outcome (DeliveryFailed e)) (\<lambda>_.
        then_do (reply_text env index (FailedSend index e)) (\<lambda>_.
        succeed ())))"

text \<open>The body of the loop for one URL.\<close>

definition process_item :: "env \<Rightarrow> string \<Rightarrow> nat \<Rightarrow> nat \<Rightarrow> string \<Rightarrow> unit prog" where
  "process_item env tmpdir ntotal index url =
     then_do (reply_text env index (Downloading index ntotal url)) (\<lambda>progress_msg.
     then_do (transcode_step env tmpdir index url progress_msg) (\<lambda>continue.
     if continue then succeed ()
     else
       then_do (delivery_step env tmpdir ntotal index) (\<lambda>_.
       delete_message env index progress_msg)))"

text \<open>\<open>for index, url in enumerate(urls, start=1)\<close>, from \<open>index\<close> on.\<close>

fun process_urls :: "env \<Rightarrow> string \<Rightarrow> nat \<Rightarrow> nat \<Rightarrow> string list \<Rightarrow> unit prog" where
  "process_urls env tmpdir ntotal index [] = succeed ()"
| "process_urls env tmpdir ntotal index (url # rest) =
     then_do (process_item env tmpdir ntotal index url) (\<lambda>_.
     process_urls env tmpdir ntotal (Suc index) rest)"

definition handle_document_body :: "env \<Rightarrow> update \<Rightarrow> unit prog" where
  "handle_document_body env upd =
     (case message upd of
        None \<Rightarrow> (\<lambda>s. (Inl AttributeError, s))
      | Some msg \<Rightarrow>
          (case document msg of
             None \<Rightarrow> then_do (reply_text env 0 NoDocumentDetected) (\<lambda>_. succeed ())
           | Some doc \<Rightarrow>
               (case file_name doc of
                  None \<Rightarrow> (\<lambda>s. (Inl AttributeError, s))
                | Some name \<Rightarrow>
                    if \<not> endswith (lower name) ''.txt''
                    then then_do (reply_text env 0 NeedTxtExtension) (\<lambda>_. succeed ())
                    else
                      then_do (get_file env (file_id doc)) (\<lambda>_.
                      with_temporary_directory env (\<lambda>tmpdir.
                        then_do (download_to_drive env (path_join tmpdir ''urls.txt'')) (\<lambda>_.
                        then_do (readlines env (path_join tmpdir ''urls.txt'')) (\<lambda>lines.
                        if filter_urls lines = []
                        then then_do (reply_text env 0 NoValidUrls) (\<lambda>_. succeed ())
                        else
                          then_do (reply_text env 0 (FoundUrls (length (filter_urls lines)))) (\<lambda>_.
                          then_do (process_urls env tmpdir (length (filter_urls lines)) 1
                                     (filter_urls lines)) (\<lambda>_.
                          then_do (reply_text env 0 AllProcessed) (\<lambda>_.
                          succeed ()))))))))))"

definition handle_document :: "env \<Rightarrow> update \<Rightarrow> unit prog" where
  "handle_document = owner_only handle_document_body"

section \<open>What the environment decides for an item\<close>

text \<open>
  The exception with which the delivery of item \<open>index\<close> ends (opening the file, then
  \<open>send_video\<close>), if any, and the calls the delivery makes.
\<close>

definition delivery_error :: "env \<Rightarrow> string \<Rightarrow> nat \<Rightarrow> nat \<Rightarrow> exn option" where
  "delivery_error env tmpdir ntotal index =
     (case raises env index (OpenFile (video_path tmpdir index)) of
        Some e \<Rightarrow> Some e
      | None \<Rightarrow> raises env index (SendVideo (video_path tmpdir index) index ntotal))"

definition delivery_events :: "env \<Rightarrow> string \<Rightarrow> nat \<Rightarrow> nat \<Rightarrow> event list" where
  "delivery_events env tmpdir ntotal index =
     (case raises env index (OpenFile (video_path tmpdir index)) of
        Some e \<Rightarrow> [(OpenFile (video_path tmpdir index), Raised e)]
      | None \<Rightarrow>
          [(OpenFile (video_path tmpdir index), Returned),
           (SendVideo (video_path tmpdir index) index ntotal,
            case raises env index (SendVideo (video_path tmpdir index) index ntotal) of
              None \<Rightarrow> Returned
            | Some e \<Rightarrow> Raised e)])"

text \<open>The files after the tool run of item \<open>index\<close>.\<close>

definition after_tool :: "env \<Rightarrow> string \<Rightarrow> nat \<Rightarrow> string list \<Rightarrow> string list" where
  "after_tool env tmpdir index fs =
     (if ffmpeg_output env index then List.insert (video_path tmpdir index) fs else fs)"

text \<open>
  The outcome of item \<open>index\<close> as the environment decides it, for an item whose tool
  is launched: the tool exits with a non-zero status, or the delivery raises, or neither.
\<close>

definition expected_outcome :: "env \<Rightarrow> string \<Rightarrow> nat \<Rightarrow> nat \<Rightarrow> string \<Rightarrow> outcome" where
  "expected_outcome env tmpdir ntotal index url =
     (case raises env index (SubprocessRun (ffmpeg_cmd url (video_path tmpdir index))) of
        Some e \<Rightarrow> TranscodeFailed
      | None \<Rightarrow>
          (case delivery_error env tmpdir ntotal index of
             None \<Rightarrow> Delivered
           | Some e \<Rightarrow> DeliveryFailed e))"

text \<open>
  The messaging calls of item \<open>index\<close> return, and the tool is launched: its run
  returns or raises \<open>CalledProcessError\<close>.
\<close>

definition item_calls_return :: "env \<Rightarrow> string \<Rightarrow> nat \<Rightarrow> nat \<Rightarrow> string \<Rightarrow> bool" where
  "item_calls_return env tmpdir ntotal index url =
     (raises env index (ReplyText (Downloading index ntotal url)) = None
      \<and> raises env index SendChatAction = None
      \<and> (case raises env index (SubprocessRun (ffmpeg_cmd url (video_path tmpdir index))) of
            None \<Rightarrow> True
          | Some e \<Rightarrow> is_CalledProcessError e)
      \<and> raises env index (ReplyText (FailedDownload url)) = None
      \<and> (\<forall>e. raises env index (ReplyText (FailedSend index e)) = None)
      \<and> raises env index (DeleteMessage (Downloading index ntotal url)) = None)"

text \<open>
  The calls of item \<open>index\<close> when its messaging calls return: the progress message, the
  chat action and the tool run; after a failed run the notice, otherwise the delivery and,
  when it raised, the notice; last the retraction.
\<close>

definition item_events :: "env \<Rightarrow> string \<Rightarrow> nat \<Rightarrow> nat \<Rightarrow> string \<Rightarrow> event list" where
  "item_events env tmpdir ntotal index url =
     [(ReplyText (Downloading index ntotal url), Returned), (SendChatAction, Returned)]
     @ (case raises env index (SubprocessRun (ffmpeg_cmd url (video_path tmpdir index))) of
          Some e \<Rightarrow>
            [(SubprocessRun (ffmpeg_cmd url (video_path tmpdir index)), Raised e),
             (ReplyText (FailedDownload url), Returned)]
        | None \<Rightarrow>
            [(SubprocessRun (ffmpeg_cmd url (video_path tmpdir index)), Returned)]
            @ delivery_events env tmpdir ntotal index
            @ (case delivery_error env tmpdir ntotal index of
                 None \<Rightarrow> []
               | Some e \<Rightarrow> [(ReplyText (FailedSend index e), Returned)]))
     @ [(DeleteMessage (Downloading index ntotal url), Returned)]"

section \<open>The start of a batch\<close>

definition is_owner :: "update \<Rightarrow> bool" where
  "is_owner upd =
     (case effective_user upd of None \<Rightarrow> False | Some user \<Rightarrow> user_id user = OWNER_ID)"

text \<open>The update comes from the owner and carries the document \<open>doc\<close>, named \<open>*.txt\<close>.\<close>

definition carries_list :: "update \<Rightarrow> tg_document \<Rightarrow> bool" where
  "carries_list upd doc =
     (is_owner upd
      \<and> (case message upd of None \<Rightarrow> False | Some msg \<Rightarrow> document msg = Some doc)
      \<and> (case file_name doc of None \<Rightarrow> False | Some name \<Rightarrow> endswith (lower name) ''.txt''))"

definition urls_txt :: "env \<Rightarrow> string" where
  "urls_txt env = path_join (tmpdir_name env) ''urls.txt''"

text \<open>The calls before the URL list is known return: the list file is fetched and read.\<close>

definition list_is_read :: "env \<Rightarrow> tg_document \<Rightarrow> bool" where
  "list_is_read env doc =
     (raises env 0 (GetFile (file_id doc)) = None
      \<and> raises env 0 TemporaryDirectory = None
      \<and> raises env 0 (DownloadToDrive (urls_txt env)) = None
      \<and> raises env 0 (ReadLines (urls_txt env)) = None)"

definition list_is_read_events :: "env \<Rightarrow> tg_document \<Rightarrow> event list" where
  "list_is_read_events env doc =
     [(GetFile (file_id doc), Returned),
      (TemporaryDirectory, Returned),
      (DownloadToDrive (urls_txt env), Returned),
      (ReadLines (urls_txt env), Returned)]"

text \<open>The state in which the loop starts, after the batch-start notification.\<close>

definition loop_start :: "env \<Rightarrow> tg_document \<Rightarrow> state" where
  "loop_start env doc =
     \<lparr>trace = list_is_read_events env doc
         @ [(ReplyText (FoundUrls (length (filter_urls (file_lines env)))), Returned)],
      results = [],
      dirs = [tmpdir_name env],
      files = [urls_txt env]\<rparr>"

section \<open>Events of a trace\<close>

text \<open>
  The progress message of item \<open>j\<close> is created, it is retracted, and the
  batch-completion notification is sent.
\<close>

fun is_progress :: "nat \<Rightarrow> event \<Rightarrow> bool" where
  "is_progress j (ReplyText (Downloading i n url), r) = (i = j)"
| "is_progress j ev = False"

fun is_retraction :: "nat \<Rightarrow> event \<Rightarrow> bool" where
  "is_retraction j (DeleteMessage (Downloading i n url), Returned) = (i = j)"
| "is_retraction j ev = False"

fun is_completion :: "event \<Rightarrow> bool" where
  "is_completion (ReplyText AllProcessed, r) = True"
| "is_completion ev = False"

section \<open>Uncaught raises and the order of events\<close>

text \<open>
  The raises that a handler of the loop body catches: \<open>CalledProcessError\<close> from the
  first \<open>try\<close> statement, anything from the second. A call that raises an exception
  \<open>e\<close> and is not among them is \<open>uncaught e\<close>.
\<close>

fun caught :: "event \<Rightarrow> bool" where
  "caught (SubprocessRun cmd, Raised e) = is_CalledProcessError e"
| "caught (SendChatAction, Raised e) = is_CalledProcessError e"
| "caught (OpenFile p, Raised e) = True"
| "caught (SendVideo p i n, Raised e) = True"
| "caught ev = False"

definition uncaught :: "exn \<Rightarrow> event \<Rightarrow> bool" where
  "uncaught e ev = (snd ev = Raised e \<and> \<not> caught ev)"

text \<open>
  Of the events \<open>evs\<close> only the last may be an uncaught raise, and then \<open>r\<close> is its
  exception.
\<close>

definition uncaught_last :: "exn + 'a \<Rightarrow> event list \<Rightarrow> bool" where
  "uncaught_last r evs =
     ((\<forall>ev\<in>set (butlast evs). \<forall>e. \<not> uncaught e ev)
      \<and> (\<forall>e. evs \<noteq> [] \<and> uncaught e (last evs) \<longrightarrow> r = Inl e))"

text \<open>No \<open>Q\<close> occurs in the list before the first \<open>P\<close>.\<close>

fun comes_first :: "('a \<Rightarrow> bool) \<Rightarrow> ('a \<Rightarrow> bool) \<Rightarrow> 'a list \<Rightarrow> bool" where
  "comes_first P Q [] = True"
| "comes_first P Q (e # es) = (\<not> Q e \<and> (P e \<or> comes_first P Q es))"

text \<open>The calls the handler makes outside the loop, before it.\<close>

fun before_loop :: "event \<Rightarrow> bool" where
  "before_loop (ReplyText (Downloading i n u), r) = False"
| "before_loop (ReplyText (FailedDownload u), r) = False"
| "before_loop (ReplyText (FailedSend i e), r) = False"
| "before_loop (ReplyText AllProcessed, r) = False"
| "before_loop (ReplyText t, r) = True"
| "before_loop (GetFile f, r) = True"
| "before_loop (TemporaryDirectory, r) = True"
| "before_loop (DownloadToDrive p, r) = True"
| "before_loop (ReadLines p, r) = True"
| "before_loop (c, r) = False"

section \<open>The file system\<close>

text \<open>
  The name that \<open>TemporaryDirectory()\<close> gives is not in use: neither the directory nor
  anything below it exists.
\<close>

definition unused :: "string \<Rightarrow> state \<Rightarrow> bool" where
  "unused dir s =
     (dir \<notin> set (dirs s)
      \<and> list_all (\<lambda>d. \<not> is_below dir d) (dirs s)
      \<and> list_all (\<lambda>p. \<not> is_below dir p) (files s))"

text \<open>
  From \<open>s\<close> to \<open>s'\<close> the directories stay as they are, no file goes, and the files that
  appear lie below \<open>dir\<close>.
\<close>

definition below_only :: "string \<Rightarrow> state \<Rightarrow> state \<Rightarrow> bool" where
  "below_only dir s s' =
     (dirs s' = dirs s
      \<and> (\<exists>new. files s' = new @ files s \<and> (\<forall>p\<in>set new. is_below dir p)))"

section \<open>Example inputs\<close>

text \<open>
  The lines of a list file: two manifest URLs with surrounding whitespace and mixed case, a
  line that is no manifest URL, and a last line without a newline.
\<close>

definition example_lines :: "string list" where
  "example_lines =
     [''a.mpd'' @ [CHR 0x0A], ''  b.M3U8 '' @ [CHR 0x0A], ''notes'' @ [CHR 0x0A], ''bad.mpd'']"

text \<open>An update of the owner with a list file, and environments for it.\<close>

definition list_document :: tg_document where
  "list_document = \<lparr>file_name = Some ''list.TXT'', file_id = ''f1''\<rparr>"

definition owner_update :: update where
  "owner_update =
     \<lparr>effective_user = Some \<lparr>user_id = 7833842279\<rparr>,
      message = Some \<lparr>document = Some list_document\<rparr>\<rparr>"

text \<open>
  Every call returns, except that the tool exits with status 1 on the third URL and
  leaves no file there.
\<close>

definition third_fails_env :: env where
  "third_fails_env =
     \<lparr>raises = (\<lambda>k c. case c of
                    SubprocessRun cmd \<Rightarrow> if k = 3 then Some (CalledProcessError 1) else None
                  | _ \<Rightarrow> None),
      tmpdir_name = ''/tmp/job'',
      file_lines = example_lines,
      ffmpeg_output = (\<lambda>k. k \<noteq> 3)\<rparr>"

text \<open>Every call returns, except that the tool exits with status 1 on the second URL.\<close>

definition second_fails_env :: env where
  "second_fails_env =
     \<lparr>raises = (\<lambda>k c. case c of
                    SubprocessRun cmd \<Rightarrow> if k = 2 then Some (CalledProcessError 1) else None
                  | _ \<Rightarrow> None),
      tmpdir_name = ''/tmp/job'',
      file_lines = example_lines,
      ffmpeg_output = (\<lambda>k. k \<noteq> 2)\<rparr>"


text \<open>The tool is not installed: launching it fails.\<close>

definition no_tool_env :: env where
  "no_tool_env =
     \<lparr>raises = (\<lambda>k c. case c of
                    SubprocessRun cmd \<Rightarrow> Some FileNotFoundError
                  | _ \<Rightarrow> None),
      tmpdir_name = ''/tmp/job'',
      file_lines = example_lines,
      ffmpeg_output = (\<lambda>k. False)\<rparr>"

text \<open>The first progress message is already gone when the handler retracts it.\<close>

definition message_gone_env :: env where
  "message_gone_env =
     \<lparr>raises = (\<lambda>k c. case c of
                    DeleteMessage t \<Rightarrow>
                      if k = 1 then Some (TelegramError ''Message to delete not found'') else None
                  | _ \<Rightarrow> None),
      tmpdir_name = ''/tmp/job'',
      file_lines = example_lines,
      ffmpeg_output = (\<lambda>k. True)\<rparr>"

text \<open>A list file without any manifest URL.\<close>

definition no_urls_env :: env where
  "no_urls_env =
     \<lparr>raises = (\<lambda>k c. None),
      tmpdir_name = ''/tmp/job'',
      file_lines = [''notes'' @ [CHR 0x0A], ''https://example.org/a.mp4''],
      ffmpeg_output = (\<lambda>k. True)\<rparr>"

text \<open>Updates of the owner without a list file, and an update of somebody else.\<close>

definition pdf_update :: update where
  "pdf_update =
     \<lparr>effective_user = Some \<lparr>user_id = 7833842279\<rparr>,
      message = Some \<lparr>document = Some \<lparr>file_name = Some ''list.pdf'', file_id = ''f2''\<rparr>\<rparr>\<rparr>"

definition nameless_update :: update where
  "nameless_update =
     \<lparr>effective_user = Some \<lparr>user_id = 7833842279\<rparr>,
      message = Some \<lparr>document = Some \<lparr>file_name = None, file_id = ''f3''\<rparr>\<rparr>\<rparr>"

definition stranger_update :: update where
  "stranger_update =
     \<lparr>effective_user = Some \<lparr>user_id = 42\<rparr>,
      message = Some \<lparr>document = None\<rparr>\<rparr>"

text \<open>A file system in use before the handler runs.\<close>

definition busy_state :: state where
  "busy_state =
     \<lparr>trace = [], results = [],
      dirs = [''/tmp'', ''/srv/bot''],
      files = [''/tmp/jobs.log'', ''/srv/bot/main.py'']\<rparr>"

section \<open>Facts about the string functions\<close>

lemma of_char_lower_char:
  "(of_char (lower_char c) :: nat) =
     (if (65 \<le> (of_char c :: nat) \<and> (of_char c :: nat) \<le> 90)
         \<or> (192 \<le> (of_char c :: nat) \<and> (of_char c :: nat) \<le> 222 \<and> (of_char c :: nat) \<noteq> 215)
      then of_char c + 32 else of_char c)"
  by (simp add: lower_char_def Let_def)

lemma char_eq_nat: "c = d \<longleftrightarrow> (of_char c :: nat) = of_char d"
  by (simp add: of_char_eq_iff)

lemma lower_char_dot: "lower_char c = CHR ''.'' \<longleftrightarrow> c = CHR ''.''"
  unfolding char_eq_nat [of _ "CHR ''.''"] of_char_lower_char
  by (auto split: if_splits)

lemma lower_char_3: "lower_char c = CHR ''3'' \<longleftrightarrow> c = CHR ''3''"
  unfolding char_eq_nat [of _ "CHR ''3''"] of_char_lower_char
  by (auto split: if_splits)

lemma lower_char_8: "lower_char c = CHR ''8'' \<longleftrightarrow> c = CHR ''8''"
  unfolding char_eq_nat [of _ "CHR ''8''"] of_char_lower_char
  by (auto split: if_splits)

lemma lower_char_m: "lower_char c = CHR ''m'' \<longleftrightarrow> c = CHR ''m'' \<or> c = CHR ''M''"
  unfolding char_eq_nat [of _ "CHR ''m''"] char_eq_nat [of _ "CHR ''M''"] of_char_lower_char
  by (auto split: if_splits)

lemma lower_char_p: "lower_char c = CHR ''p'' \<longleftrightarrow> c = CHR ''p'' \<or> c = CHR ''P''"
  unfolding char_eq_nat [of _ "CHR ''p''"] char_eq_nat [of _ "CHR ''P''"] of_char_lower_char
  by (auto split: if_splits)

lemma lower_char_d: "lower_char c = CHR ''d'' \<longleftrightarrow> c = CHR ''d'' \<or> c = CHR ''D''"
  unfolding char_eq_nat [of _ "CHR ''d''"] char_eq_nat [of _ "CHR ''D''"] of_char_lower_char
  by (auto split: if_splits)

lemma lower_char_u: "lower_char c = CHR ''u'' \<longleftrightarrow> c = CHR ''u'' \<or> c = CHR ''U''"
  unfolding char_eq_nat [of _ "CHR ''u''"] char_eq_nat [of _ "CHR ''U''"] of_char_lower_char
  by (auto split: if_splits)

lemma endswith_lower_iff:
  "endswith (lower s) suf \<longleftrightarrow> (\<exists>p t. s = p @ t \<and> map lower_char t = suf)"
proof
  assume h: "endswith (lower s) suf"
  have "s = take (length s - length suf) s @ drop (length s - length suf) s"
    by simp
  moreover have "map lower_char (drop (length s - length suf) s) = suf"
    using h by (simp add: endswith_def lower_def drop_map)
  ultimately show "\<exists>p t. s = p @ t \<and> map lower_char t = suf"
    by blast
next
  assume "\<exists>p t. s = p @ t \<and> map lower_char t = suf"
  then obtain p t where "s = p @ t" "map lower_char t = suf"
    by blast
  then show "endswith (lower s) suf"
    by (auto simp: endswith_def lower_def)
qed

lemma lower_eq_mpd:
  "map lower_char t = ''.mpd'' \<longleftrightarrow>
     (\<exists>a b c. t = [CHR ''.'', a, b, c] \<and> a \<in> {CHR ''m'', CHR ''M''}
        \<and> b \<in> {CHR ''p'', CHR ''P''} \<and> c \<in> {CHR ''d'', CHR ''D''})"
  by (auto simp: map_eq_Cons_conv lower_char_dot lower_char_m lower_char_p lower_char_d)

lemma lower_eq_m3u8:
  "map lower_char t = ''.m3u8'' \<longleftrightarrow>
     (\<exists>a c. t = [CHR ''.'', a, CHR ''3'', c, CHR ''8''] \<and> a \<in> {CHR ''m'', CHR ''M''}
        \<and> c \<in> {CHR ''u'', CHR ''U''})"
  by (auto simp: map_eq_Cons_conv lower_char_dot lower_char_m lower_char_3 lower_char_u lower_char_8)

lemma endswith_mpd:
  "endswith (lower s) ''.mpd'' \<longleftrightarrow>
     (\<exists>p a b c. s = p @ [CHR ''.'', a, b, c] \<and> a \<in> {CHR ''m'', CHR ''M''}
        \<and> b \<in> {CHR ''p'', CHR ''P''} \<and> c \<in> {CHR ''d'', CHR ''D''})"
  unfolding endswith_lower_iff lower_eq_mpd by blast

lemma endswith_m3u8:
  "endswith (lower s) ''.m3u8'' \<longleftrightarrow>
     (\<exists>p a c. s = p @ [CHR ''.'', a, CHR ''3'', c, CHR ''8''] \<and> a \<in> {CHR ''m'', CHR ''M''}
        \<and> c \<in> {CHR ''u'', CHR ''U''})"
  unfolding endswith_lower_iff lower_eq_m3u8 by blast

lemma strip_decomposition:
  "line = takeWhile isspace line @ strip line
            @ rev (takeWhile isspace (rev (dropWhile isspace line)))"
proof -
  have "rev (dropWhile isspace line) =
          takeWhile isspace (rev (dropWhile isspace line))
            @ dropWhile isspace (rev (dropWhile isspace line))"
    by simp
  then have "dropWhile isspace line =
          strip line @ rev (takeWhile isspace (rev (dropWhile isspace line)))"
    unfolding strip_def by (metis rev_append rev_rev_ident)
  then show ?thesis
    by (metis takeWhile_dropWhile_id)
qed

lemma strip_last: "strip line \<noteq> [] \<Longrightarrow> \<not> isspace (last (strip line))"
  unfolding strip_def by (simp add: last_rev hd_dropWhile)

lemma strip_hd: 
  assumes "strip line \<noteq> []" shows "\<not> isspace (hd (strip line))"
proof -
  let ?d = "dropWhile isspace line"
  have "?d = [] \<Longrightarrow> strip line = []" unfolding strip_def by (simp only: rev.simps dropWhile.simps)
  then have ne: "?d \<noteq> []" using assms by blast
  have "?d = strip line @ rev (takeWhile isspace (rev ?d))"
    using strip_decomposition [of line] 
    by (metis append_same_eq  takeWhile_dropWhile_id append.assoc same_append_eq)
  then have "hd ?d = hd (strip line)" using assms by (metis hd_append2)
  then show ?thesis using ne by (metis hd_dropWhile)
qed

section \<open>URL filtering\<close>

text \<open>
  C9. The URL filter keeps exactly the lines whose stripped form ends in \<open>.mpd\<close> or
  \<open>.m3u8\<close>, whatever the case of the letters, and it keeps them stripped and in their
  original order: the result is the list of stripped lines, filtered by that test. The
  stripped form of a line is the line without its leading and trailing whitespace.
\<close>

theorem filter_urls_keeps:
  "filter_urls lines =
     filter (\<lambda>s. (\<exists>p a b c. s = p @ [CHR ''.'', a, b, c] \<and> a \<in> {CHR ''m'', CHR ''M''}
                     \<and> b \<in> {CHR ''p'', CHR ''P''} \<and> c \<in> {CHR ''d'', CHR ''D''})
                \<or> (\<exists>p a c. s = p @ [CHR ''.'', a, CHR ''3'', c, CHR ''8'']
                     \<and> a \<in> {CHR ''m'', CHR ''M''} \<and> c \<in> {CHR ''u'', CHR ''U''}))
       (map strip lines)
   \<and> (\<forall>line. \<exists>a b. line = a @ strip line @ b \<and> list_all isspace a \<and> list_all isspace b
          \<and> (strip line \<noteq> [] \<longrightarrow> \<not> isspace (hd (strip line)) \<and> \<not> isspace (last (strip line))))"
proof (intro conjI allI)
  show "filter_urls lines = filter (\<lambda>s. (\<exists>p a b c. s = p @ [CHR ''.'', a, b, c] \<and> a \<in> {CHR ''m'', CHR ''M''}
                     \<and> b \<in> {CHR ''p'', CHR ''P''} \<and> c \<in> {CHR ''d'', CHR ''D''})
                \<or> (\<exists>p a c. s = p @ [CHR ''.'', a, CHR ''3'', c, CHR ''8'']
                     \<and> a \<in> {CHR ''m'', CHR ''M''} \<and> c \<in> {CHR ''u'', CHR ''U''}))
       (map strip lines)"
    unfolding filter_urls_def endswith_any_def
    by (simp add: filter_map comp_def endswith_mpd endswith_m3u8)
next
  fix line
  have "list_all isspace (takeWhile isspace line)"
    by (simp add: list_all_iff) (meson set_takeWhileD)
  moreover have "list_all isspace (rev (takeWhile isspace (rev (dropWhile isspace line))))"
    by (simp add: list_all_iff) (meson set_takeWhileD)
  ultimately show "\<exists>a b. line = a @ strip line @ b \<and> list_all isspace a \<and> list_all isspace b
          \<and> (strip line \<noteq> [] \<longrightarrow> \<not> isspace (hd (strip line)) \<and> \<not> isspace (last (strip line)))"
    using strip_decomposition [of line] strip_hd [of line] strip_last [of line] by blast
qed

lemma snoc4_eq: "s = p @ [w, x, y, z] \<longleftrightarrow> rev s = z # y # x # w # rev p"
  by (metis rev.simps(2) rev_rev_ident rev_append append.simps rev.simps(1) rev_swap)

lemma snoc5_eq: "s = p @ [v, w, x, y, z] \<longleftrightarrow> rev s = z # y # x # w # v # rev p"
  by (metis rev.simps(2) rev_rev_ident rev_append append.simps rev.simps(1) rev_swap)

theorem filter_urls_keeps_witness:
  "filter_urls example_lines = [''a.mpd'', ''b.M3U8'', ''bad.mpd'']
   \<and> strip (''  b.M3U8 '' @ [CHR 0x0A]) \<noteq> []
   \<and> \<not> isspace (hd (strip (''  b.M3U8 '' @ [CHR 0x0A])))
   \<and> \<not> isspace (last (strip (''  b.M3U8 '' @ [CHR 0x0A])))"
proof -
  have strips: "map strip example_lines = [''a.mpd'', ''b.M3U8'', ''notes'', ''bad.mpd'']"
    by code_simp
  have ne: "strip (''  b.M3U8 '' @ [CHR 0x0A]) \<noteq> []"
    by code_simp
  have r1: "rev ''a.mpd'' = ''dpm.a''" "rev ''b.M3U8'' = ''8U3M.b''" "rev ''notes'' = ''seton''"
    "rev ''bad.mpd'' = ''dpm.dab''" by simp_all
  have "filter_urls example_lines = [''a.mpd'', ''b.M3U8'', ''bad.mpd'']"
    using filter_urls_keeps [of example_lines] unfolding strips snoc4_eq snoc5_eq r1
    by simp
  moreover have "\<not> isspace (hd (strip (''  b.M3U8 '' @ [CHR 0x0A])))
      \<and> \<not> isspace (last (strip (''  b.M3U8 '' @ [CHR 0x0A])))"
    using filter_urls_keeps [of example_lines] ne by blast
  ultimately show ?thesis using ne by blast
qed

section \<open>Facts about the handler\<close>

lemmas prog_defs = then_do_def try_except_def succeed_def record_outcome_def reply_text_def
  delete_message_def send_chat_action_def subprocess_run_def open_rb_def send_video_def
  get_file_def download_to_drive_def readlines_def perform_def write_file_def
  transcode_step_def delivery_step_def

lemma lower_char_t: "lower_char c = CHR ''t'' \<longleftrightarrow> c = CHR ''t'' \<or> c = CHR ''T''"
  unfolding char_eq_nat [of _ "CHR ''t''"] char_eq_nat [of _ "CHR ''T''"] of_char_lower_char
  by (auto split: if_splits)

lemma lower_char_x: "lower_char c = CHR ''x'' \<longleftrightarrow> c = CHR ''x'' \<or> c = CHR ''X''"
  unfolding char_eq_nat [of _ "CHR ''x''"] char_eq_nat [of _ "CHR ''X''"] of_char_lower_char
  by (auto split: if_splits)

lemma lower_eq_txt:
  "map lower_char t = ''.txt'' \<longleftrightarrow>
     (\<exists>a b c. t = [CHR ''.'', a, b, c] \<and> a \<in> {CHR ''t'', CHR ''T''}
        \<and> b \<in> {CHR ''x'', CHR ''X''} \<and> c \<in> {CHR ''t'', CHR ''T''})"
  by (auto simp: map_eq_Cons_conv lower_char_dot lower_char_t lower_char_x)

lemma endswith_txt:
  "endswith (lower s) ''.txt'' \<longleftrightarrow>
     (\<exists>p a b c. s = p @ [CHR ''.'', a, b, c] \<and> a \<in> {CHR ''t'', CHR ''T''}
        \<and> b \<in> {CHR ''x'', CHR ''X''} \<and> c \<in> {CHR ''t'', CHR ''T''})"
  unfolding endswith_lower_iff lower_eq_txt by blast

lemma reply_only:
  "map fst (trace (snd (then_do (reply_text env 0 t) (\<lambda>_. succeed ()) initial))) = [ReplyText t]
   \<and> results (snd (then_do (reply_text env 0 t) (\<lambda>_. succeed ()) initial)) = []
   \<and> dirs (snd (then_do (reply_text env 0 t) (\<lambda>_. succeed ()) initial)) = []
   \<and> files (snd (then_do (reply_text env 0 t) (\<lambda>_. succeed ()) initial)) = []"
  by (simp add: prog_defs initial_def split: option.splits)

lemma handle_document_owner:
  "is_owner upd \<Longrightarrow> handle_document env upd = handle_document_body env upd"
  by (auto simp: handle_document_def owner_only_def is_owner_def split: option.splits)

section \<open>Messages without a list file\<close>

text \<open>
  For a message without a document, or with a document whose name does not end in
  \<open>.txt\<close> (in any case of the letters), the handler makes one call, a reply with the
  warning, and nothing else: no file is fetched, no workspace is created, no item is
  processed. The warning is the one for the missing document or for the extension; a sender
  who is not the owner gets the unauthorized notice instead.
\<close>

lemma named_document_no_work:
  assumes "message upd = Some msg"
    and "document msg = None
         \<or> (\<exists>doc name. document msg = Some doc \<and> file_name doc = Some name
              \<and> \<not> (\<exists>p a b c. name = p @ [CHR ''.'', a, b, c]
                     \<and> a \<in> {CHR ''t'', CHR ''T''} \<and> b \<in> {CHR ''x'', CHR ''X''}
                     \<and> c \<in> {CHR ''t'', CHR ''T''}))"
  shows "map fst (trace (snd (handle_document env upd initial))) =
           [ReplyText (if \<not> is_owner upd then Unauthorized
                       else if document msg = None then NoDocumentDetected
                       else NeedTxtExtension)]
         \<and> results (snd (handle_document env upd initial)) = []
         \<and> dirs (snd (handle_document env upd initial)) = []
         \<and> files (snd (handle_document env upd initial)) = []"
proof (cases "is_owner upd")
  case False
  then have "handle_document env upd = then_do (reply_text env 0 Unauthorized) (\<lambda>_. succeed ())"
    using assms(1)
    by (auto simp: handle_document_def owner_only_def is_owner_def split: option.splits)
  then show ?thesis using False reply_only [of env Unauthorized] by simp
next
  case True
  note body = handle_document_owner [OF True]
  show ?thesis
  proof (cases "document msg")
    case None
    then have "handle_document env upd =
        then_do (reply_text env 0 NoDocumentDetected) (\<lambda>_. succeed ())"
      using assms(1) by (simp add: body handle_document_body_def)
    then show ?thesis using True None reply_only [of env NoDocumentDetected] by simp
  next
    case (Some doc)
    then obtain name where name: "file_name doc = Some name"
        "\<not> endswith (lower name) ''.txt''"
      using assms(2) by (auto simp: endswith_txt)
    then have "handle_document env upd =
        then_do (reply_text env 0 NeedTxtExtension) (\<lambda>_. succeed ())"
      using assms(1) Some by (simp add: body handle_document_body_def)
    then show ?thesis using True Some reply_only [of env NeedTxtExtension] by simp
  qed
qed

text \<open>
  C10 fails on a document without a name: \<open>document.file_name\<close> is \<open>None\<close>, the call
  of \<open>lower()\<close> on it raises \<open>AttributeError\<close>, and the handler of the owner's message
  ends with that exception before any reply. No warning is sent; nothing else is done
  either.
\<close>

theorem nameless_document_raises:
  "handle_document env nameless_update initial = (Inl AttributeError, initial)"
proof -
  have "is_owner nameless_update"
    by (simp add: is_owner_def nameless_update_def OWNER_ID_def)
  then show ?thesis
    by (simp add: handle_document_owner handle_document_body_def nameless_update_def)
qed

text \<open>The documents with a name, and the senders who are not the owner, by example.\<close>

lemma named_document_examples:
  "map fst (trace (snd (handle_document third_fails_env pdf_update initial))) =
     [ReplyText NeedTxtExtension]
   \<and> map fst (trace (snd (handle_document third_fails_env stranger_update initial))) =
       [ReplyText Unauthorized]"
proof -
  have m: "message pdf_update =
      Some \<lparr>document = Some \<lparr>file_name = Some ''list.pdf'', file_id = ''f2''\<rparr>\<rparr>"
    by (simp add: pdf_update_def)
  have d: "document \<lparr>document = Some \<lparr>file_name = Some ''list.pdf'', file_id = ''f2''\<rparr>\<rparr> = None
     \<or> (\<exists>doc name. document \<lparr>document = Some \<lparr>file_name = Some ''list.pdf'', file_id = ''f2''\<rparr>\<rparr>
                = Some doc \<and> file_name doc = Some name
              \<and> \<not> (\<exists>p a b c. name = p @ [CHR ''.'', a, b, c]
                     \<and> a \<in> {CHR ''t'', CHR ''T''} \<and> b \<in> {CHR ''x'', CHR ''X''}
                     \<and> c \<in> {CHR ''t'', CHR ''T''}))"
    unfolding snoc4_eq by simp
  have o: "is_owner pdf_update"
    by (simp add: is_owner_def pdf_update_def OWNER_ID_def)
  have ms: "message stranger_update = Some \<lparr>document = None\<rparr>"
    by (simp add: stranger_update_def)
  have os: "\<not> is_owner stranger_update"
    by (simp add: is_owner_def stranger_update_def OWNER_ID_def)
  show ?thesis
    using named_document_no_work [OF m d, of third_fails_env]
      named_document_no_work [OF ms, of third_fails_env] o os
    by simp
qed

section \<open>The workspace\<close>

lemma below_only_refl: "below_only d s s"
  by (simp add: below_only_def)

lemma below_only_trans:
  assumes "below_only d s s1" and "below_only d s1 s2"
  shows "below_only d s s2"
proof -
  obtain new1 where n1: "files s1 = new1 @ files s" "\<forall>p\<in>set new1. is_below d p"
    using assms(1) by (auto simp: below_only_def)
  obtain new2 where n2: "files s2 = new2 @ files s1" "\<forall>p\<in>set new2. is_below d p"
    using assms(2) by (auto simp: below_only_def)
  have "files s2 = (new2 @ new1) @ files s" "\<forall>p\<in>set (new2 @ new1). is_below d p"
    using n1 n2 by auto
  then show ?thesis
    using assms unfolding below_only_def by metis
qed

lemma below_only_same:
  "dirs s' = dirs s \<Longrightarrow> files s' = files s \<Longrightarrow> below_only d s s'"
  by (simp add: below_only_def)

lemma below_only_write:
  assumes "is_below d p"
  shows "below_only d s (write_file p s)"
proof (cases "p \<in> set (files s)")
  case True
  then show ?thesis by (simp add: below_only_def write_file_def)
next
  case False
  then have "files (write_file p s) = [p] @ files s"
    by (simp add: write_file_def)
  then show ?thesis
    using assms unfolding below_only_def by (metis write_file_def
        empty_iff empty_set set_ConsD state.select_convs(3) state.surjective state.update_convs(4))
qed

lemma below_path_join: "is_below d (path_join d name)"
  by (simp add: is_below_def path_join_def prefix_def)

lemma below_video_path: "is_below d (video_path d j)"
  by (simp add: video_path_def below_path_join)

lemma perform_below: "below_only d s (snd (perform env k c s))"
  by (simp add: perform_def below_only_def split: option.splits)

lemma succeed_below: "below_only d s (snd (succeed x s))"
  by (simp add: succeed_def below_only_refl)

lemma record_outcome_below: "below_only d s (snd (record_outcome oc s))"
  by (simp add: record_outcome_def below_only_def)

lemma then_do_below:
  assumes "\<And>s. below_only d s (snd (m s))" and "\<And>x s. below_only d s (snd (f x s))"
  shows "below_only d s (snd (then_do m f s))"
proof (cases "m s")
  case (Pair r s1)
  have 1: "below_only d s s1"
    using assms(1) [of s] Pair by simp
  show ?thesis
  proof (cases r)
    case (Inl e)
    then show ?thesis using Pair 1 by (simp add: then_do_def)
  next
    case (Inr x)
    then have "then_do m f s = f x s1"
      using Pair by (simp add: then_do_def)
    then show ?thesis
      using 1 assms(2) [of s1 x] below_only_trans by metis
  qed
qed

lemma try_except_below:
  assumes "\<And>s. below_only d s (snd (m s))" and "\<And>e s. below_only d s (snd (h e s))"
  shows "below_only d s (snd (try_except m c h s))"
proof (cases "m s")
  case (Pair r s1)
  have 1: "below_only d s s1"
    using assms(1) [of s] Pair by simp
  show ?thesis
  proof (cases r)
    case (Inr x)
    then show ?thesis using Pair 1 by (simp add: try_except_def)
  next
    case (Inl e)
    show ?thesis
    proof (cases "c e")
      case False
      then show ?thesis using Pair Inl 1 by (simp add: try_except_def)
    next
      case True
      then have "try_except m c h s = h e s1"
        using Pair Inl by (simp add: try_except_def)
      then show ?thesis
        using 1 assms(2) [of s1 e] below_only_trans by metis
    qed
  qed
qed

lemma reply_text_below: "below_only d s (snd (reply_text env k t s))"
  unfolding reply_text_def by (intro then_do_below perform_below succeed_below)

lemma subprocess_run_below:
  "below_only d s (snd (subprocess_run env k cmd (video_path d j) s))"
proof -
  have "below_only d s (if ffmpeg_output env k then write_file (video_path d j) s else s)"
    by (simp add: below_only_write below_video_path below_only_refl)
  then show ?thesis
    unfolding subprocess_run_def using perform_below below_only_trans by metis
qed

lemma download_to_drive_below:
  "below_only d s (snd (download_to_drive env (path_join d name) s))"
  unfolding download_to_drive_def
  by (intro then_do_below perform_below) (simp add: below_only_write below_path_join)

lemma transcode_step_below:
  "below_only d s (snd (transcode_step env d j url pm s))"
  unfolding transcode_step_def send_chat_action_def delete_message_def
  by (intro try_except_below then_do_below perform_below succeed_below
      record_outcome_below reply_text_below subprocess_run_below)

lemma delivery_step_below:
  "below_only d s (snd (delivery_step env d n j s))"
  unfolding delivery_step_def open_rb_def send_video_def
  by (intro try_except_below then_do_below perform_below succeed_below
      record_outcome_below reply_text_below)

lemma process_item_below:
  "below_only d s (snd (process_item env d n j url s))"
  unfolding process_item_def
proof (intro then_do_below reply_text_below transcode_step_below)
  fix pm and continue :: bool and s
  show "below_only d s
      (snd ((if continue then succeed ()
             else then_do (delivery_step env d n j)
                    (\<lambda>_. delete_message env j pm)) s))"
    unfolding delete_message_def
    by (cases continue)
      (simp_all add: succeed_below then_do_below delivery_step_below perform_below)
qed

lemma process_urls_below:
  "below_only d s (snd (process_urls env d n j urls s))"
proof (induction urls arbitrary: j s)
  case Nil
  then show ?case by (simp add: succeed_below)
next
  case (Cons u us)
  show ?case
    unfolding process_urls.simps
    by (intro then_do_below process_item_below Cons.IH)
qed

text \<open>
  In the \<open>with\<close> block of the handler files appear below the temporary directory only:
  every path written there is joined to its name.
\<close>

lemma with_body_below:
  "below_only d s
     (snd (then_do (download_to_drive env (path_join d ''urls.txt'')) (\<lambda>_.
           then_do (readlines env (path_join d ''urls.txt'')) (\<lambda>lines.
           if filter_urls lines = []
           then then_do (reply_text env 0 NoValidUrls) (\<lambda>_. succeed ())
           else
             then_do (reply_text env 0 (FoundUrls (length (filter_urls lines)))) (\<lambda>_.
             then_do (process_urls env d (length (filter_urls lines)) 1
                        (filter_urls lines)) (\<lambda>_.
             then_do (reply_text env 0 AllProcessed) (\<lambda>_.
             succeed ()))))) s))"
proof (intro then_do_below download_to_drive_below)
  fix s
  show "below_only d s (snd (readlines env (path_join d ''urls.txt'') s))"
    unfolding readlines_def by (intro then_do_below perform_below succeed_below)
next
  fix lines :: "string list" and s
  show "below_only d s
     (snd ((if filter_urls lines = []
            then then_do (reply_text env 0 NoValidUrls) (\<lambda>_. succeed ())
            else
              then_do (reply_text env 0 (FoundUrls (length (filter_urls lines)))) (\<lambda>_.
              then_do (process_urls env d (length (filter_urls lines)) 1
                         (filter_urls lines)) (\<lambda>_.
              then_do (reply_text env 0 AllProcessed) (\<lambda>_.
              succeed ())))) s))"
    by (cases "filter_urls lines = []")
      (simp_all add: then_do_below reply_text_below succeed_below process_urls_below)
qed

text \<open>
  Leaving the \<open>with\<close> block restores the file system, when the name of the temporary
  directory was not in use and the body wrote below it only.
\<close>

lemma with_temporary_directory_restores:
  assumes "unused (tmpdir_name env) s"
    and "\<And>s. below_only (tmpdir_name env) s (snd (body (tmpdir_name env) s))"
  shows "dirs (snd (with_temporary_directory env body s)) = dirs s
         \<and> files (snd (with_temporary_directory env body s)) = files s"
proof (cases "raises env 0 TemporaryDirectory")
  case (Some e)
  then show ?thesis
    by (simp add: with_temporary_directory_def perform_def)
next
  case None
  let ?d = "tmpdir_name env"
  let ?s1 = "s\<lparr>trace := trace s @ [(TemporaryDirectory, Returned)],
                dirs := List.insert ?d (dirs s)\<rparr>"
  obtain r s2 where b: "body ?d ?s1 = (r, s2)"
    by (cases "body ?d ?s1") blast
  have run: "with_temporary_directory env body s = (r, rmtree ?d s2)"
    using None b by (simp add: with_temporary_directory_def perform_def)
  have "below_only ?d ?s1 s2"
    using assms(2) [of ?s1] b by simp
  then obtain new where s2: "dirs s2 = List.insert ?d (dirs s)"
      "files s2 = new @ files s" "\<forall>p\<in>set new. is_below ?d p"
    by (auto simp: below_only_def)
  have d: "?d \<notin> set (dirs s)" "\<forall>x\<in>set (dirs s). \<not> is_below ?d x"
      "\<forall>p\<in>set (files s). \<not> is_below ?d p"
    using assms(1) by (simp_all add: unused_def list_all_iff)
  have "filter (\<lambda>x. x \<noteq> ?d \<and> \<not> is_below ?d x) (List.insert ?d (dirs s)) = dirs s"
    using d(1,2) by (auto simp: List.insert_def filter_id_conv)
  moreover have "filter (\<lambda>p. \<not> is_below ?d p) (new @ files s) = files s"
    using d(3) s2(3) by (simp add: filter_id_conv filter_empty_conv)
  ultimately show ?thesis
    by (simp add: run rmtree_def s2)
qed

lemma reply_same_fs:
  "dirs (snd (then_do (reply_text env k t) (\<lambda>_. succeed ()) s)) = dirs s
   \<and> files (snd (then_do (reply_text env k t) (\<lambda>_. succeed ()) s)) = files s"
  by (simp add: prog_defs split: option.splits)

lemma handle_document_body_restores:
  assumes "unused (tmpdir_name env) s"
  shows "dirs (snd (handle_document_body env upd s)) = dirs s
         \<and> files (snd (handle_document_body env upd s)) = files s"
proof (cases "message upd")
  case None
  then show ?thesis by (simp add: handle_document_body_def)
next
  case (Some msg)
  show ?thesis
  proof (cases "document msg")
    case None
    then show ?thesis using Some by (simp add: handle_document_body_def reply_same_fs)
  next
    case doc: (Some doc)
    show ?thesis
    proof (cases "file_name doc")
      case None
      then show ?thesis using Some doc by (simp add: handle_document_body_def)
    next
      case name: (Some name)
      show ?thesis
      proof (cases "endswith (lower name) ''.txt''")
        case False
        then show ?thesis
          using Some doc name by (simp add: handle_document_body_def reply_same_fs)
      next
        case True
        let ?with = "with_temporary_directory env (\<lambda>tmpdir.
            then_do (download_to_drive env (path_join tmpdir ''urls.txt'')) (\<lambda>_.
            then_do (readlines env (path_join tmpdir ''urls.txt'')) (\<lambda>lines.
            if filter_urls lines = []
            then then_do (reply_text env 0 NoValidUrls) (\<lambda>_. succeed ())
            else
              then_do (reply_text env 0 (FoundUrls (length (filter_urls lines)))) (\<lambda>_.
              then_do (process_urls env tmpdir (length (filter_urls lines)) 1
                         (filter_urls lines)) (\<lambda>_.
              then_do (reply_text env 0 AllProcessed) (\<lambda>_.
              succeed ()))))))"
        have body: "handle_document_body env upd s =
            then_do (get_file env (file_id doc)) (\<lambda>_. ?with) s"
          using Some doc name True by (simp add: handle_document_body_def)
        have restores: "dirs (snd (?with s')) = dirs s' \<and> files (snd (?with s')) = files s'"
          if "unused (tmpdir_name env) s'" for s'
          using that by (rule with_temporary_directory_restores) (rule with_body_below)
        show ?thesis
        proof (cases "raises env 0 (GetFile (file_id doc))")
          case (Some e)
          then show ?thesis
            by (simp add: body get_file_def then_do_def perform_def)
        next
          case None
          let ?s1 = "s\<lparr>trace := trace s @ [(GetFile (file_id doc), Returned)]\<rparr>"
          have "handle_document_body env upd s = ?with ?s1"
            using None by (simp add: body get_file_def then_do_def perform_def)
          moreover have "unused (tmpdir_name env) ?s1"
            using assms by (simp add: unused_def)
          ultimately show ?thesis
            using restores [of ?s1] by simp
        qed
      qed
    qed
  qed
qed

text \<open>
  C5. Let the name that the environment gives to the temporary directory be unused when
  the handler starts. Then, however the handler is left, by a return or by an exception,
  and whatever the environment does, the file system is as it was before: the workspace
  directory does not exist, no file lies below it, and no file written by the job is left
  anywhere.
\<close>

theorem job_leaves_no_file:
  assumes "unused (tmpdir_name env) s"
  shows "dirs (snd (handle_document env upd s)) = dirs s
         \<and> files (snd (handle_document env upd s)) = files s
         \<and> tmpdir_name env \<notin> set (dirs (snd (handle_document env upd s)))
         \<and> list_all (\<lambda>p. \<not> is_below (tmpdir_name env) p) (files (snd (handle_document env upd s)))"
proof -
  have "dirs (snd (handle_document env upd s)) = dirs s
      \<and> files (snd (handle_document env upd s)) = files s"
  proof (cases "is_owner upd")
    case True
    then show ?thesis
      using handle_document_body_restores [OF assms] by (simp add: handle_document_owner)
  next
    case False
    then have "handle_document env upd s =
        (case message upd of
           Some _ \<Rightarrow> then_do (reply_text env 0 Unauthorized) (\<lambda>_. succeed ()) s
         | None \<Rightarrow> succeed () s)"
      by (auto simp: handle_document_def owner_only_def is_owner_def split: option.splits)
    then show ?thesis
      by (simp add: reply_same_fs succeed_def split: option.splits)
  qed
  then show ?thesis
    using assms by (simp add: unused_def)
qed

lemma handle_document_no_urls:
  assumes "carries_list upd doc" and "list_is_read env doc"
    and "filter_urls (file_lines env) = []"
  shows "handle_document env upd initial =
     (case raises env 0 (ReplyText NoValidUrls) of
        None \<Rightarrow>
          (Inr (),
           \<lparr>trace = list_is_read_events env doc @ [(ReplyText NoValidUrls, Returned)],
            results = [], dirs = [], files = []\<rparr>)
      | Some e \<Rightarrow>
          (Inl e,
           \<lparr>trace = list_is_read_events env doc @ [(ReplyText NoValidUrls, Raised e)],
            results = [], dirs = [], files = []\<rparr>))"
proof -
  have o: "is_owner upd" using assms(1) by (simp add: carries_list_def)
  obtain msg where m: "message upd = Some msg" "document msg = Some doc"
    using assms(1) by (auto simp: carries_list_def split: option.splits)
  obtain name where t: "file_name doc = Some name" "endswith (lower name) ''.txt''"
    using assms(1) by (auto simp: carries_list_def split: option.splits)
  show ?thesis
    using assms(2,3) m t
    by (simp add: handle_document_owner [OF o] handle_document_body_def
        with_temporary_directory_def prog_defs list_is_read_def list_is_read_events_def
        urls_txt_def initial_def rmtree_def below_path_join split: option.splits)
qed

lemma handle_document_batch:
  assumes "carries_list upd doc" and "list_is_read env doc"
    and "filter_urls (file_lines env) \<noteq> []"
    and "raises env 0 (ReplyText (FoundUrls (length (filter_urls (file_lines env))))) = None"
  shows "handle_document env upd initial =
     (case process_urls env (tmpdir_name env) (length (filter_urls (file_lines env))) 1
             (filter_urls (file_lines env)) (loop_start env doc) of
        (Inl e, s) \<Rightarrow> (Inl e, rmtree (tmpdir_name env) s)
      | (Inr u, s) \<Rightarrow>
          (case raises env 0 (ReplyText AllProcessed) of
             None \<Rightarrow>
               (Inr (), rmtree (tmpdir_name env)
                          (s\<lparr>trace := trace s @ [(ReplyText AllProcessed, Returned)]\<rparr>))
           | Some e \<Rightarrow>
               (Inl e, rmtree (tmpdir_name env)
                         (s\<lparr>trace := trace s @ [(ReplyText AllProcessed, Raised e)]\<rparr>))))"
proof -
  have o: "is_owner upd" using assms(1) by (simp add: carries_list_def)
  obtain msg where m: "message upd = Some msg" "document msg = Some doc"
    using assms(1) by (auto simp: carries_list_def split: option.splits)
  obtain name where t: "file_name doc = Some name" "endswith (lower name) ''.txt''"
    using assms(1) by (auto simp: carries_list_def split: option.splits)
  show ?thesis
    using assms(2,3,4) m t
    by (simp add: handle_document_owner [OF o] handle_document_body_def
        with_temporary_directory_def prog_defs list_is_read_def list_is_read_events_def
        loop_start_def urls_txt_def initial_def split: option.splits prod.splits sum.splits)
qed

text \<open>
  C3, as amended. When the list file is fetched and read and no line of it is a valid URL,
  the handler replies that there are no valid URLs and does nothing more: no item is
  processed and no outcome is recorded. The workspace was created before, to hold the
  downloaded list; it is removed when the handler returns.
\<close>

theorem no_valid_urls_ends_batch:
  assumes "carries_list upd doc" and "list_is_read env doc"
    and "filter_urls (file_lines env) = []"
  shows "map fst (trace (snd (handle_document env upd initial))) =
           [GetFile (file_id doc), TemporaryDirectory, DownloadToDrive (urls_txt env),
            ReadLines (urls_txt env), ReplyText NoValidUrls]
         \<and> results (snd (handle_document env upd initial)) = []
         \<and> dirs (snd (handle_document env upd initial)) = []
         \<and> files (snd (handle_document env upd initial)) = []"
  by (simp add: handle_document_no_urls [OF assms] list_is_read_events_def
      split: option.splits)

theorem no_valid_urls_ends_batch_witness:
  "map fst (trace (snd (handle_document no_urls_env owner_update initial))) =
     [GetFile ''f1'', TemporaryDirectory, DownloadToDrive ''/tmp/job/urls.txt'',
      ReadLines ''/tmp/job/urls.txt'', ReplyText NoValidUrls]
   \<and> results (snd (handle_document no_urls_env owner_update initial)) = []
   \<and> dirs (snd (handle_document no_urls_env owner_update initial)) = []
   \<and> files (snd (handle_document no_urls_env owner_update initial)) = []"
proof -
  have c: "carries_list owner_update list_document"
    by code_simp
  have r: "list_is_read no_urls_env list_document"
    by (simp add: list_is_read_def no_urls_env_def)
  have f: "filter_urls (file_lines no_urls_env) = []"
    by code_simp
  have p: "urls_txt no_urls_env = ''/tmp/job/urls.txt''" "file_id list_document = ''f1''"
    by (simp_all add: urls_txt_def no_urls_env_def path_join_def list_document_def)
  show ?thesis
    using no_valid_urls_ends_batch [OF c r f] by (simp add: p)
qed

text \<open>
  C3 as stated fails: for a list without valid URLs the temporary directory is created
  before the list is read, and the list file is downloaded into it.
\<close>

theorem no_valid_urls_workspace_created:
  "filter_urls (file_lines no_urls_env) = []
   \<and> handle_document no_urls_env owner_update initial =
       (Inr (),
        \<lparr>trace =
           [(GetFile ''f1'', Returned),
            (TemporaryDirectory, Returned),
            (DownloadToDrive ''/tmp/job/urls.txt'', Returned),
            (ReadLines ''/tmp/job/urls.txt'', Returned),
            (ReplyText NoValidUrls, Returned)],
         results = [], dirs = [], files = []\<rparr>)"
  by code_simp

section \<open>Failures of one item\<close>

lemma process_urls_append:
  "process_urls env tmpdir n idx (xs @ ys) s =
     then_do (process_urls env tmpdir n idx xs)
       (\<lambda>_. process_urls env tmpdir n (idx + length xs) ys) s"
proof (induction xs arbitrary: idx s)
  case Nil
  then show ?case by (simp add: then_do_def succeed_def)
next
  case (Cons x xs)
  show ?case
    by (simp add: then_do_def Cons.IH split: prod.splits sum.splits)
qed


lemma process_item_transcode_failed:
  assumes "raises env j (ReplyText (Downloading j n url)) = None"
    and "raises env j SendChatAction = None"
    and "raises env j (SubprocessRun (ffmpeg_cmd url (video_path tmpdir j))) = Some (CalledProcessError rc)"
    and "raises env j (ReplyText (FailedDownload url)) = None"
    and "raises env j (DeleteMessage (Downloading j n url)) = None"
  shows "process_item env tmpdir n j url s =
     (Inr (),
      \<lparr>trace = trace s @
         [(ReplyText (Downloading j n url), Returned),
          (SendChatAction, Returned),
          (SubprocessRun (ffmpeg_cmd url (video_path tmpdir j)), Raised (CalledProcessError rc)),
          (ReplyText (FailedDownload url), Returned),
          (DeleteMessage (Downloading j n url), Returned)],
       results = results s @ [TranscodeFailed],
       dirs = dirs s,
       files = after_tool env tmpdir j (files s)\<rparr>)"
  using assms by (simp add: process_item_def prog_defs after_tool_def)




section \<open>The example list\<close>

lemma example_urls: "filter_urls example_lines = [''a.mpd'', ''b.M3U8'', ''bad.mpd'']"
  by code_simp

lemma example_paths:
  "video_path ''/tmp/job'' (Suc 0) = ''/tmp/job/video_1.mp4''"
  "video_path ''/tmp/job'' (Suc (Suc 0)) = ''/tmp/job/video_2.mp4''"
  "video_path ''/tmp/job'' (Suc (Suc (Suc 0))) = ''/tmp/job/video_3.mp4''"
  by code_simp+

lemma owner_carries_list: "carries_list owner_update list_document"
  by code_simp

lemmas example_defs = list_document_def urls_txt_def path_join_def loop_start_def
  list_is_read_events_def list_is_read_def example_urls example_paths



section \<open>The whole batch\<close>

lemma process_item_complete:
  assumes "item_calls_return env tmpdir n j url"
  shows "process_item env tmpdir n j url s =
     (Inr (),
      \<lparr>trace = trace s @ item_events env tmpdir n j url,
       results = results s @ [expected_outcome env tmpdir n j url],
       dirs = dirs s,
       files = after_tool env tmpdir j (files s)\<rparr>)"
  using assms
  by (auto simp: item_calls_return_def process_item_def prog_defs expected_outcome_def
      item_events_def delivery_error_def delivery_events_def after_tool_def
      split: option.splits exn.splits)

lemma process_urls_complete:
  assumes "\<forall>k<length us. item_calls_return env tmpdir n (idx + k) (us ! k)"
  shows "\<exists>s'. process_urls env tmpdir n idx us s = (Inr (), s')
           \<and> trace s' = trace s
                @ concat (map (\<lambda>k. item_events env tmpdir n (idx + k) (us ! k)) [0..<length us])
           \<and> results s' = results s
                @ map (\<lambda>k. expected_outcome env tmpdir n (idx + k) (us ! k)) [0..<length us]"
  using assms
proof (induction us arbitrary: idx s)
  case Nil
  then show ?case by (simp add: succeed_def)
next
  case (Cons u us)
  have "item_calls_return env tmpdir n idx u"
    using Cons.prems by fastforce
  then obtain s1 where s1: "process_item env tmpdir n idx u s = (Inr (), s1)"
      "trace s1 = trace s @ item_events env tmpdir n idx u"
      "results s1 = results s @ [expected_outcome env tmpdir n idx u]"
    using process_item_complete [of env tmpdir n idx u s] by simp
  have "\<forall>k<length us. item_calls_return env tmpdir n (Suc idx + k) (us ! k)"
    using Cons.prems by fastforce
  then obtain s2 where s2: "process_urls env tmpdir n (Suc idx) us s1 = (Inr (), s2)"
      "trace s2 = trace s1
         @ concat (map (\<lambda>k. item_events env tmpdir n (Suc idx + k) (us ! k)) [0..<length us])"
      "results s2 = results s1
         @ map (\<lambda>k. expected_outcome env tmpdir n (Suc idx + k) (us ! k)) [0..<length us]"
    using Cons.IH by blast
  have "map (\<lambda>k. expected_outcome env tmpdir n (idx + k) ((u # us) ! k)) [0..<length (u # us)] =
      expected_outcome env tmpdir n idx u
        # map (\<lambda>k. expected_outcome env tmpdir n (Suc idx + k) (us ! k)) [0..<length us]"
    by (simp add: map_upt_Suc del: upt_Suc)
  moreover have "map (\<lambda>k. item_events env tmpdir n (idx + k) ((u # us) ! k)) [0..<length (u # us)] =
      item_events env tmpdir n idx u
        # map (\<lambda>k. item_events env tmpdir n (Suc idx + k) (us ! k)) [0..<length us]"
    by (simp add: map_upt_Suc del: upt_Suc)
  ultimately show ?case
    using s1 s2 by (simp add: then_do_def)
qed

lemma item_events_no_completion:
  "filter is_completion (item_events env tmpdir n j url) = []"
  by (simp add: item_events_def delivery_events_def split: option.splits)

lemma items_no_completion:
  "filter is_completion (concat (map (\<lambda>k. item_events env tmpdir n (f k) (g k)) ks)) = []"
  by (induction ks) (simp_all add: item_events_no_completion)

text \<open>
  The outcome of an item shows in its calls: it is \<open>Delivered\<close> exactly when
  \<open>send_video\<close> returned, \<open>TranscodeFailed\<close> exactly when the notice naming the URL
  was sent, and \<open>DeliveryFailed e\<close> exactly when the notice carrying \<open>e\<close> was sent.
\<close>

lemma outcome_shows_in_events:
  "(expected_outcome env tmpdir n j url = Delivered \<longleftrightarrow>
      (SendVideo (video_path tmpdir j) j n, Returned) \<in> set (item_events env tmpdir n j url))
   \<and> (expected_outcome env tmpdir n j url = TranscodeFailed \<longleftrightarrow>
      (ReplyText (FailedDownload url), Returned) \<in> set (item_events env tmpdir n j url))
   \<and> (expected_outcome env tmpdir n j url = DeliveryFailed e \<longleftrightarrow>
      (ReplyText (FailedSend j e), Returned) \<in> set (item_events env tmpdir n j url))"
  by (auto simp: expected_outcome_def item_events_def delivery_error_def delivery_events_def
      split: option.splits)

text \<open>
  C4, as amended. For a list with \<open>n > 0\<close> valid URLs, when the messaging calls return
  and the tool is launched for every item (it exits with status zero or not, and the
  delivery raises or not, item by item), the handler returns, and its calls are: the
  fetching and reading of the list, the batch-start notification, then for the URLs in
  the order of the list the calls of each item, then one batch-completion notification.
  There are \<open>n\<close> recorded outcomes, the \<open>k\<close>-th being that of the \<open>k\<close>-th URL: it is
  \<open>Delivered\<close> exactly when the video of that item was sent, \<open>TranscodeFailed\<close> exactly
  when the notice naming the URL was sent, and \<open>DeliveryFailed e\<close> exactly when the
  notice carrying \<open>e\<close> was sent.
\<close>

theorem every_item_has_an_outcome:
  assumes "carries_list upd doc" and "list_is_read env doc"
    and "urls = filter_urls (file_lines env)" and "urls \<noteq> []" and "n = length urls"
    and "raises env 0 (ReplyText (FoundUrls n)) = None"
    and "\<forall>k<n. item_calls_return env (tmpdir_name env) n (Suc k) (urls ! k)"
    and "raises env 0 (ReplyText AllProcessed) = None"
  shows "fst (handle_document env upd initial) = Inr ()
         \<and> trace (snd (handle_document env upd initial)) =
             list_is_read_events env doc @ [(ReplyText (FoundUrls n), Returned)]
             @ concat (map (\<lambda>k. item_events env (tmpdir_name env) n (Suc k) (urls ! k)) [0..<n])
             @ [(ReplyText AllProcessed, Returned)]
         \<and> results (snd (handle_document env upd initial)) =
             map (\<lambda>k. expected_outcome env (tmpdir_name env) n (Suc k) (urls ! k)) [0..<n]
         \<and> length (results (snd (handle_document env upd initial))) = n
         \<and> (\<forall>k<n.
              (results (snd (handle_document env upd initial)) ! k = Delivered \<longleftrightarrow>
                 (SendVideo (video_path (tmpdir_name env) (Suc k)) (Suc k) n, Returned)
                   \<in> set (item_events env (tmpdir_name env) n (Suc k) (urls ! k)))
              \<and> (results (snd (handle_document env upd initial)) ! k = TranscodeFailed \<longleftrightarrow>
                 (ReplyText (FailedDownload (urls ! k)), Returned)
                   \<in> set (item_events env (tmpdir_name env) n (Suc k) (urls ! k)))
              \<and> (\<forall>e. results (snd (handle_document env upd initial)) ! k = DeliveryFailed e \<longleftrightarrow>
                 (ReplyText (FailedSend (Suc k) e), Returned)
                   \<in> set (item_events env (tmpdir_name env) n (Suc k) (urls ! k))))
         \<and> length (filter is_completion (trace (snd (handle_document env upd initial)))) = 1
         \<and> last (trace (snd (handle_document env upd initial))) = (ReplyText AllProcessed, Returned)"
proof -
  let ?run = "handle_document env upd initial"
  let ?d = "tmpdir_name env"
  have items: "\<forall>k<length urls. item_calls_return env ?d n (1 + k) (urls ! k)"
    using assms(5,7) by simp
  obtain s1 where s1: "process_urls env ?d n 1 urls (loop_start env doc) = (Inr (), s1)"
      "trace s1 = trace (loop_start env doc)
         @ concat (map (\<lambda>k. item_events env ?d n (1 + k) (urls ! k)) [0..<length urls])"
      "results s1 = results (loop_start env doc)
         @ map (\<lambda>k. expected_outcome env ?d n (1 + k) (urls ! k)) [0..<length urls]"
    using process_urls_complete [OF items] by blast
  have start: "trace (loop_start env doc) =
        list_is_read_events env doc @ [(ReplyText (FoundUrls n), Returned)]"
      "results (loop_start env doc) = []"
    using assms(3,5) by (simp_all add: loop_start_def)
  have run: "?run =
      (Inr (), rmtree ?d (s1\<lparr>trace := trace s1 @ [(ReplyText AllProcessed, Returned)]\<rparr>))"
    using handle_document_batch [OF assms(1,2)] assms(3,4,5,6,8) s1(1) by simp
  have ok: "fst ?run = Inr ()"
    by (simp add: run)
  have tr: "trace (snd ?run) =
      list_is_read_events env doc @ [(ReplyText (FoundUrls n), Returned)]
      @ concat (map (\<lambda>k. item_events env ?d n (Suc k) (urls ! k)) [0..<n])
      @ [(ReplyText AllProcessed, Returned)]"
    using assms(5) by (simp add: run rmtree_def s1(2) start(1))
  have res: "results (snd ?run) =
      map (\<lambda>k. expected_outcome env ?d n (Suc k) (urls ! k)) [0..<n]"
    using assms(5) by (simp add: run rmtree_def s1(3) start(2))
  have len: "length (results (snd ?run)) = n"
    by (simp add: res)
  have nth: "results (snd ?run) ! k = expected_outcome env ?d n (Suc k) (urls ! k)"
    if "k < n" for k
    using that by (simp add: res)
  have shows_up: "\<forall>k<n.
      (results (snd ?run) ! k = Delivered \<longleftrightarrow>
         (SendVideo (video_path ?d (Suc k)) (Suc k) n, Returned)
           \<in> set (item_events env ?d n (Suc k) (urls ! k)))
      \<and> (results (snd ?run) ! k = TranscodeFailed \<longleftrightarrow>
         (ReplyText (FailedDownload (urls ! k)), Returned)
           \<in> set (item_events env ?d n (Suc k) (urls ! k)))
      \<and> (\<forall>e. results (snd ?run) ! k = DeliveryFailed e \<longleftrightarrow>
         (ReplyText (FailedSend (Suc k) e), Returned)
           \<in> set (item_events env ?d n (Suc k) (urls ! k)))"
    using outcome_shows_in_events [of env ?d n] by (simp add: nth)
  have one: "length (filter is_completion (trace (snd ?run))) = 1"
    unfolding tr by (simp add: items_no_completion list_is_read_events_def)
  have last: "last (trace (snd ?run)) = (ReplyText AllProcessed, Returned)"
    unfolding tr by simp
  show ?thesis
    using ok tr res len shows_up one last by blast
qed

section \<open>The calls of one item, in every environment\<close>

lemma transcode_step_run:
  "\<exists>evs. trace (snd (transcode_step env tmpdir j url pm s)) = trace s @ evs
     \<and> (\<forall>ev\<in>set evs. \<not> is_completion ev \<and> (\<forall>i. \<not> is_progress i ev))
     \<and> (fst (transcode_step env tmpdir j url pm s) = Inr True
          \<longrightarrow> (DeleteMessage pm, Returned) \<in> set evs)
     \<and> uncaught_last (fst (transcode_step env tmpdir j url pm s)) evs"
  by (simp add: prog_defs uncaught_last_def uncaught_def split: option.splits)

lemma delivery_step_run:
  "\<exists>evs. trace (snd (delivery_step env tmpdir n j s)) = trace s @ evs
     \<and> (\<forall>ev\<in>set evs. \<not> is_completion ev \<and> (\<forall>i. \<not> is_progress i ev))
     \<and> uncaught_last (fst (delivery_step env tmpdir n j s)) evs"
  by (simp add: prog_defs uncaught_last_def uncaught_def split: option.splits)

lemma uncaught_last_none:
  "\<forall>ev\<in>set evs. \<forall>e. \<not> uncaught e ev \<Longrightarrow> uncaught_last r evs"
  by (auto simp: uncaught_last_def dest: in_set_butlastD)

lemma uncaught_last_Inr:
  assumes "uncaught_last (Inr x) evs"
  shows "\<forall>ev\<in>set evs. \<forall>e. \<not> uncaught e ev"
proof (cases "evs = []")
  case True
  then show ?thesis by simp
next
  case False
  then have "set evs = insert (last evs) (set (butlast evs))"
    by (metis append_butlast_last_id list.simps(15) rotate1.simps(2) set_rotate1)
  then show ?thesis
    using assms False by (auto simp: uncaught_last_def)
qed

lemma uncaught_last_append:
  assumes "\<forall>ev\<in>set xs. \<forall>e. \<not> uncaught e ev" and "uncaught_last r ys"
  shows "uncaught_last r (xs @ ys)"
proof (cases "ys = []")
  case True
  then show ?thesis using assms(1) by (simp add: uncaught_last_none)
next
  case False
  then show ?thesis
    using assms by (auto simp: uncaught_last_def butlast_append)
qed

lemma uncaught_last_Inl:
  "uncaught_last (Inl e :: exn + 'a) evs \<Longrightarrow> uncaught_last (Inl e :: exn + 'b) evs"
  by (simp add: uncaught_last_def)

lemma uncaught_last_nth:
  assumes "uncaught_last r tr" and "k < length tr" and "uncaught e (tr ! k)"
  shows "Suc k = length tr \<and> r = Inl e"
proof -
  have "\<not> Suc k < length tr"
  proof
    assume "Suc k < length tr"
    then have "tr ! k \<in> set (butlast tr)"
      by (metis Suc_lessD length_butlast less_diff_conv nth_butlast nth_mem Suc_eq_plus1)
    then show False using assms(1,3) by (auto simp: uncaught_last_def)
  qed
  then have k: "Suc k = length tr" using assms(2) by simp
  then have "last tr = tr ! k"
    by (metis assms(2) diff_Suc_1 last_conv_nth length_greater_0_conv less_nat_zero_code list.size(3))
  then show ?thesis using assms(1,2,3) k by (auto simp: uncaught_last_def)
qed

lemma process_item_run:
  "\<exists>res evs.
     trace (snd (process_item env tmpdir n j url s)) =
       trace s @ (ReplyText (Downloading j n url), res) # evs
     \<and> (\<forall>ev\<in>set evs. \<not> is_completion ev \<and> (\<forall>i. \<not> is_progress i ev))
     \<and> (fst (process_item env tmpdir n j url s) = Inr ()
          \<longrightarrow> (DeleteMessage (Downloading j n url), Returned) \<in> set evs)
     \<and> uncaught_last (fst (process_item env tmpdir n j url s))
          ((ReplyText (Downloading j n url), res) # evs)"
proof (cases "raises env j (ReplyText (Downloading j n url))")
  case (Some e)
  then have "process_item env tmpdir n j url s =
      (Inl e, s\<lparr>trace := trace s @ [(ReplyText (Downloading j n url), Raised e)]\<rparr>)"
    by (simp add: process_item_def reply_text_def then_do_def perform_def)
  then show ?thesis
    by (auto simp: uncaught_last_def uncaught_def)
next
  case None
  let ?pm = "Downloading j n url"
  let ?s1 = "s\<lparr>trace := trace s @ [(ReplyText ?pm, Returned)]\<rparr>"
  let ?P = "(ReplyText ?pm, Returned)"
  have P: "\<forall>e. \<not> uncaught e ?P" by (simp add: uncaught_def)
  have start: "process_item env tmpdir n j url s =
      then_do (transcode_step env tmpdir j url ?pm) (\<lambda>continue.
        if continue then succeed ()
        else then_do (delivery_step env tmpdir n j) (\<lambda>_. delete_message env j ?pm)) ?s1"
    using None by (simp add: process_item_def reply_text_def then_do_def perform_def succeed_def)
  obtain r1 s2 where T: "transcode_step env tmpdir j url ?pm ?s1 = (r1, s2)"
    by (cases "transcode_step env tmpdir j url ?pm ?s1") blast
  obtain evs1 where evs1: "trace s2 = trace ?s1 @ evs1"
      "\<forall>ev\<in>set evs1. \<not> is_completion ev \<and> (\<forall>i. \<not> is_progress i ev)"
      "r1 = Inr True \<longrightarrow> (DeleteMessage ?pm, Returned) \<in> set evs1"
      "uncaught_last r1 evs1"
    using transcode_step_run [of env tmpdir j url ?pm ?s1] T by auto
  have tr2: "trace s2 = trace s @ ?P # evs1"
    using evs1(1) by simp
  show ?thesis
  proof (cases r1)
    case (Inl e)
    then have "process_item env tmpdir n j url s = (Inl e, s2)"
      using start T by (simp add: then_do_def)
    moreover have "uncaught_last (Inl e :: exn + unit) ([?P] @ evs1)"
      using evs1(4) Inl P by (intro uncaught_last_append) (auto intro: uncaught_last_Inl)
    ultimately show ?thesis
      using tr2 evs1(2) by auto
  next
    case (Inr continue)
    then have no1: "\<forall>ev\<in>set evs1. \<forall>e. \<not> uncaught e ev"
      using evs1(4) uncaught_last_Inr [of continue evs1] by simp
    show ?thesis
    proof (cases continue)
      case True
      then have "process_item env tmpdir n j url s = (Inr (), s2)"
        using start T Inr by (simp add: then_do_def succeed_def)
      moreover have "uncaught_last (Inr () :: exn + unit) (?P # evs1)"
        using no1 P by (intro uncaught_last_none) auto
      ultimately show ?thesis
        using tr2 evs1(2,3) Inr True by auto
    next
      case False
      obtain r2 s3 where D: "delivery_step env tmpdir n j s2 = (r2, s3)"
        by (cases "delivery_step env tmpdir n j s2") blast
      obtain evs2 where evs2: "trace s3 = trace s2 @ evs2"
          "\<forall>ev\<in>set evs2. \<not> is_completion ev \<and> (\<forall>i. \<not> is_progress i ev)"
          "uncaught_last r2 evs2"
        using delivery_step_run [of env tmpdir n j s2] D by auto
      have tr3: "trace s3 = trace s @ ?P # (evs1 @ evs2)"
        using evs2(1) tr2 by simp
      have cont: "process_item env tmpdir n j url s =
          then_do (delivery_step env tmpdir n j) (\<lambda>_. delete_message env j ?pm) s2"
        using start T Inr False by (simp add: then_do_def)
      show ?thesis
      proof (cases r2)
        case (Inl e)
        then have "process_item env tmpdir n j url s = (Inl e, s3)"
          using cont D by (simp add: then_do_def)
        moreover have "uncaught_last (Inl e :: exn + unit) ((?P # evs1) @ evs2)"
          using evs2(3) Inl P no1 by (intro uncaught_last_append) auto
        ultimately show ?thesis
          using tr3 evs1(2) evs2(2) by auto
      next
        case (Inr u)
        then have no2: "\<forall>ev\<in>set evs2. \<forall>e. \<not> uncaught e ev"
          using evs2(3) uncaught_last_Inr [of u evs2] by simp
        have del: "process_item env tmpdir n j url s = perform env j (DeleteMessage ?pm) s3"
          using cont D Inr by (simp add: then_do_def delete_message_def)
        show ?thesis
        proof (cases "raises env j (DeleteMessage ?pm)")
          case None
          then have "process_item env tmpdir n j url s =
              (Inr (), s3\<lparr>trace := trace s3 @ [(DeleteMessage ?pm, Returned)]\<rparr>)"
            using del by (simp add: perform_def)
          moreover have "uncaught_last (Inr () :: exn + unit)
              (?P # (evs1 @ evs2 @ [(DeleteMessage ?pm, Returned)]))"
            using no1 no2 P by (intro uncaught_last_none) (auto simp: uncaught_def)
          ultimately show ?thesis
            using tr3 evs1(2) evs2(2)
            by (intro exI [of _ Returned] exI [of _ "evs1 @ evs2 @ [(DeleteMessage ?pm, Returned)]"])
              auto
        next
          case (Some e)
          then have "process_item env tmpdir n j url s =
              (Inl e, s3\<lparr>trace := trace s3 @ [(DeleteMessage ?pm, Raised e)]\<rparr>)"
            using del by (simp add: perform_def)
          moreover have "uncaught_last (Inl e :: exn + unit)
              ((?P # evs1 @ evs2) @ [(DeleteMessage ?pm, Raised e)])"
            using no1 no2 P
            by (intro uncaught_last_append) (auto simp: uncaught_last_def uncaught_def)
          ultimately show ?thesis
            using tr3 evs1(2) evs2(2)
            by (intro exI [of _ Returned] exI [of _ "evs1 @ evs2 @ [(DeleteMessage ?pm, Raised e)]"])
              auto
        qed
      qed
    qed
  qed
qed

section \<open>The calls of the loop, in every environment\<close>

lemma comes_first_iff:
  "comes_first P Q tr \<longleftrightarrow> (\<forall>k<length tr. Q (tr ! k) \<longrightarrow> (\<exists>k'<k. P (tr ! k')))"
proof (induction tr)
  case Nil
  then show ?case by simp
next
  case (Cons e es)
  have "(\<forall>k<length (e # es). Q ((e # es) ! k) \<longrightarrow> (\<exists>k'<k. P ((e # es) ! k'))) \<longleftrightarrow>
        (\<not> Q e \<and> (\<forall>m<length es. Q (es ! m) \<longrightarrow> (P e \<or> (\<exists>k'<m. P (es ! k')))))"
    by (auto simp: All_less_Suc2 Ex_less_Suc2)
  also have "\<dots> \<longleftrightarrow> (\<not> Q e \<and> (P e \<or> (\<forall>m<length es. Q (es ! m) \<longrightarrow> (\<exists>k'<m. P (es ! k')))))"
    by blast
  finally show ?case using Cons.IH by simp
qed

lemma comes_first_append:
  "comes_first P Q (xs @ ys) \<longleftrightarrow>
     comes_first P Q xs \<and> (list_ex P xs \<or> comes_first P Q ys)"
  by (induction xs) auto

lemma comes_first_none: "\<forall>e\<in>set xs. \<not> Q e \<Longrightarrow> comes_first P Q xs"
  by (induction xs) auto

lemma process_urls_run:
  "\<exists>evs. trace (snd (process_urls env tmpdir n idx us s)) = trace s @ evs
     \<and> (\<forall>ev\<in>set evs. \<not> is_completion ev)
     \<and> uncaught_last (fst (process_urls env tmpdir n idx us s)) evs"
proof (induction us arbitrary: idx s)
  case Nil
  then show ?case by (simp add: succeed_def uncaught_last_def)
next
  case (Cons u us)
  obtain r1 s1 where I: "process_item env tmpdir n idx u s = (r1, s1)"
    by (cases "process_item env tmpdir n idx u s") blast
  obtain res evs1 where evs1:
      "trace s1 = trace s @ (ReplyText (Downloading idx n u), res) # evs1"
      "\<forall>ev\<in>set evs1. \<not> is_completion ev"
      "uncaught_last r1 ((ReplyText (Downloading idx n u), res) # evs1)"
    using process_item_run [of env tmpdir n idx u s] I by auto
  show ?case
  proof (cases r1)
    case (Inl e)
    then have "process_urls env tmpdir n idx (u # us) s = (Inl e, s1)"
      using I by (simp add: then_do_def)
    then show ?thesis
      using evs1 Inl by auto
  next
    case (Inr x)
    then have step: "process_urls env tmpdir n idx (u # us) s =
        process_urls env tmpdir n (Suc idx) us s1"
      using I by (simp add: then_do_def)
    obtain evs2 where evs2:
        "trace (snd (process_urls env tmpdir n (Suc idx) us s1)) = trace s1 @ evs2"
        "\<forall>ev\<in>set evs2. \<not> is_completion ev"
        "uncaught_last (fst (process_urls env tmpdir n (Suc idx) us s1)) evs2"
      using Cons.IH by blast
    have "\<forall>ev\<in>set ((ReplyText (Downloading idx n u), res) # evs1). \<forall>e. \<not> uncaught e ev"
      using evs1(3) Inr uncaught_last_Inr [of x "(ReplyText (Downloading idx n u), res) # evs1"]
      by simp
    then have "uncaught_last (fst (process_urls env tmpdir n (Suc idx) us s1))
        (((ReplyText (Downloading idx n u), res) # evs1) @ evs2)"
      using evs2(3) by (intro uncaught_last_append)
    then show ?thesis
      using step evs1(1,2) evs2(1,2)
      by (intro exI [of _ "((ReplyText (Downloading idx n u), res) # evs1) @ evs2"]) auto
  qed
qed

lemma process_urls_order:
  assumes "comes_first (is_retraction j) (is_progress (Suc j)) (trace s)"
    and "Suc j = idx \<longrightarrow> list_ex (is_retraction j) (trace s)"
  shows "comes_first (is_retraction j) (is_progress (Suc j))
           (trace (snd (process_urls env tmpdir n idx us s)))"
  using assms
proof (induction us arbitrary: idx s)
  case Nil
  then show ?case by (simp add: succeed_def)
next
  case (Cons u us)
  obtain r1 s1 where I: "process_item env tmpdir n idx u s = (r1, s1)"
    by (cases "process_item env tmpdir n idx u s") blast
  obtain res evs1 where evs1:
      "trace s1 = trace s @ (ReplyText (Downloading idx n u), res) # evs1"
      "\<forall>ev\<in>set evs1. \<forall>i. \<not> is_progress i ev"
      "r1 = Inr () \<longrightarrow> (DeleteMessage (Downloading idx n u), Returned) \<in> set evs1"
    using process_item_run [of env tmpdir n idx u s] I by auto
  have "comes_first (is_retraction j) (is_progress (Suc j)) evs1"
    using evs1(2) by (intro comes_first_none) simp
  then have first: "comes_first (is_retraction j) (is_progress (Suc j)) (trace s1)"
    using Cons.prems by (auto simp: evs1(1) comes_first_append)
  show ?case
  proof (cases r1)
    case (Inl e)
    then have "process_urls env tmpdir n idx (u # us) s = (Inl e, s1)"
      using I by (simp add: then_do_def)
    then show ?thesis using first by simp
  next
    case (Inr x)
    then have step: "process_urls env tmpdir n idx (u # us) s =
        process_urls env tmpdir n (Suc idx) us s1"
      using I by (simp add: then_do_def)
    have "(DeleteMessage (Downloading idx n u), Returned) \<in> set (trace s1)"
      using evs1(1,3) Inr by simp
    then have "list_ex (is_retraction idx) (trace s1)"
      unfolding list_ex_iff by (rule bexI [rotated]) simp
    then have "Suc j = Suc idx \<longrightarrow> list_ex (is_retraction j) (trace s1)"
      by simp
    then show ?thesis
      using Cons.IH [OF first] step by simp
  qed
qed

lemma process_urls_last_retracted:
  assumes "process_urls env tmpdir n idx (xs @ [u]) s = (Inr (), s')"
  shows "list_ex (is_retraction (idx + length xs)) (trace s')"
proof -
  obtain r1 s1 where X: "process_urls env tmpdir n idx xs s = (r1, s1)"
    by (cases "process_urls env tmpdir n idx xs s") blast
  have r1: "r1 = Inr ()"
    using assms X by (cases r1) (simp_all add: process_urls_append then_do_def)
  obtain r2 s2 where I: "process_item env tmpdir n (idx + length xs) u s1 = (r2, s2)"
    by (cases "process_item env tmpdir n (idx + length xs) u s1") blast
  have "process_urls env tmpdir n idx (xs @ [u]) s =
      then_do (process_item env tmpdir n (idx + length xs) u) (\<lambda>_. succeed ()) s1"
    using X r1 by (simp add: process_urls_append then_do_def)
  then have r2: "r2 = Inr ()" "s2 = s'"
    using assms I by (cases r2; simp add: then_do_def succeed_def)+
  obtain res evs where evs:
      "trace s2 = trace s1 @ (ReplyText (Downloading (idx + length xs) n u), res) # evs"
      "r2 = Inr () \<longrightarrow>
         (DeleteMessage (Downloading (idx + length xs) n u), Returned) \<in> set evs"
    using process_item_run [of env tmpdir n "idx + length xs" u s1] I by auto
  have "(DeleteMessage (Downloading (idx + length xs) n u), Returned) \<in> set (trace s')"
    using evs r2 by simp
  then show ?thesis
    unfolding list_ex_iff by (rule bexI [rotated]) simp
qed

section \<open>The calls of the handler, in every environment\<close>

lemma handle_document_short:
  assumes "\<not> (\<exists>doc. carries_list upd doc \<and> list_is_read env doc
              \<and> filter_urls (file_lines env) \<noteq> []
              \<and> raises env 0 (ReplyText (FoundUrls (length (filter_urls (file_lines env))))) = None)"
  shows "\<forall>ev\<in>set (trace (snd (handle_document env upd initial))). before_loop ev"
proof (cases "is_owner upd")
  case False
  then show ?thesis
    by (auto simp: handle_document_def owner_only_def is_owner_def prog_defs initial_def
        split: option.splits)
next
  case True
  note owner = handle_document_owner [OF True]
  show ?thesis
  proof (cases "message upd")
    case None
    then show ?thesis by (simp add: owner handle_document_body_def initial_def)
  next
    case (Some msg)
    show ?thesis
    proof (cases "document msg")
      case None
      then show ?thesis
        using Some
        by (simp add: owner handle_document_body_def prog_defs initial_def split: option.splits)
    next
      case doc: (Some doc)
      show ?thesis
      proof (cases "file_name doc")
        case None
        then show ?thesis
          using Some doc by (simp add: owner handle_document_body_def initial_def)
      next
        case name: (Some name)
        show ?thesis
      proof (cases "endswith (lower name) ''.txt''")
        case False
        then show ?thesis
          using Some doc name
          by (simp add: owner handle_document_body_def prog_defs initial_def split: option.splits)
      next
        case ext: True
        have c: "carries_list upd doc"
          using True Some doc name ext by (simp add: carries_list_def)
        show ?thesis
        proof (cases "list_is_read env doc")
          case False
          then show ?thesis
            using Some doc name ext
            by (auto simp: owner handle_document_body_def with_temporary_directory_def
                list_is_read_def urls_txt_def prog_defs initial_def rmtree_def
                split: option.splits)
        next
          case r: True
          show ?thesis
          proof (cases "filter_urls (file_lines env) = []")
            case True
            then show ?thesis
              by (simp add: handle_document_no_urls [OF c r] list_is_read_events_def
                  split: option.splits)
          next
            case False
            then obtain e where
              "raises env 0 (ReplyText (FoundUrls (length (filter_urls (file_lines env))))) = Some e"
              using assms c r by auto
            then show ?thesis
              using Some doc name ext r False
              by (simp add: owner handle_document_body_def with_temporary_directory_def
                  list_is_read_def urls_txt_def prog_defs initial_def rmtree_def)
          qed
        qed
      qed
      qed
    qed
  qed
qed

lemma loop_start_events:
  "\<forall>ev\<in>set (trace (loop_start env doc)).
      \<not> is_completion ev \<and> (\<forall>i. \<not> is_progress i ev) \<and> (\<forall>e. \<not> uncaught e ev)"
  by (simp add: loop_start_def list_is_read_events_def uncaught_def)

lemma handle_document_batch_run:
  assumes "carries_list upd doc" and "list_is_read env doc"
    and "filter_urls (file_lines env) \<noteq> []"
    and "raises env 0 (ReplyText (FoundUrls (length (filter_urls (file_lines env))))) = None"
  shows "uncaught_last (fst (handle_document env upd initial))
           (trace (snd (handle_document env upd initial)))"
    and "0 < j \<Longrightarrow> comes_first (is_retraction j) (is_progress (Suc j))
           (trace (snd (handle_document env upd initial)))"
    and "comes_first (is_retraction (length (filter_urls (file_lines env)))) is_completion
           (trace (snd (handle_document env upd initial)))"
proof -
  let ?urls = "filter_urls (file_lines env)"
  let ?n = "length ?urls"
  let ?L = "loop_start env doc"
  let ?run = "handle_document env upd initial"
  obtain r0 s1 where loop: "process_urls env (tmpdir_name env) ?n 1 ?urls ?L = (r0, s1)"
    by (cases "process_urls env (tmpdir_name env) ?n 1 ?urls ?L") blast
  obtain evs where evs: "trace s1 = trace ?L @ evs" "\<forall>ev\<in>set evs. \<not> is_completion ev"
      "uncaught_last r0 evs"
    using process_urls_run [of env "tmpdir_name env" ?n 1 ?urls ?L] loop by auto
  have L: "\<forall>ev\<in>set (trace ?L). \<not> is_completion ev" "\<forall>ev\<in>set (trace ?L). \<forall>i. \<not> is_progress i ev"
      "\<forall>ev\<in>set (trace ?L). \<forall>e. \<not> uncaught e ev"
    using loop_start_events [of env doc] by blast+
  have nc: "\<forall>ev\<in>set (trace s1). \<not> is_completion ev"
    using evs(1,2) L(1) by auto
  have order: "0 < j \<Longrightarrow> comes_first (is_retraction j) (is_progress (Suc j)) (trace s1)" for j
    using process_urls_order [of j ?L 1 env "tmpdir_name env" ?n ?urls] loop L(2)
    by (simp add: comes_first_none)
  note batch = handle_document_batch [OF assms]
  have all: "uncaught_last (fst ?run) (trace (snd ?run))
      \<and> (0 < j \<longrightarrow> comes_first (is_retraction j) (is_progress (Suc j)) (trace (snd ?run)))
      \<and> comes_first (is_retraction ?n) is_completion (trace (snd ?run))"
  proof (cases r0)
    case (Inl e)
    then have run: "?run = (Inl e, rmtree (tmpdir_name env) s1)"
      using batch loop by simp
    have "uncaught_last (Inl e :: exn + unit) (trace ?L @ evs)"
      using evs(3) L(3) Inl by (intro uncaught_last_append) auto
    then have "uncaught_last (fst ?run) (trace (snd ?run))"
      by (simp add: run evs(1) rmtree_def)
    moreover have "0 < j \<longrightarrow> comes_first (is_retraction j) (is_progress (Suc j)) (trace (snd ?run))"
      using order by (simp add: run rmtree_def)
    moreover have "comes_first (is_retraction ?n) is_completion (trace (snd ?run))"
      using nc by (simp add: run comes_first_none rmtree_def)
    ultimately show ?thesis by blast
  next
    case (Inr u)
    define res where "res = (case raises env 0 (ReplyText AllProcessed) of
        None \<Rightarrow> Returned | Some e \<Rightarrow> Raised e)"
    have run: "trace (snd ?run) = trace s1 @ [(ReplyText AllProcessed, res)]"
        "\<forall>e. res = Raised e \<longrightarrow> fst ?run = Inl e"
      using batch loop Inr by (auto simp: res_def rmtree_def split: option.splits)
    have "\<forall>ev\<in>set (trace ?L @ evs). \<forall>e. \<not> uncaught e ev"
      using evs(3) Inr L(3) uncaught_last_Inr [of u evs] by auto
    moreover have "uncaught_last (fst ?run) [(ReplyText AllProcessed, res)]"
      using run(2) by (simp add: uncaught_last_def uncaught_def)
    ultimately have "uncaught_last (fst ?run) ((trace ?L @ evs) @ [(ReplyText AllProcessed, res)])"
      by (intro uncaught_last_append)
    then have "uncaught_last (fst ?run) (trace (snd ?run))"
      by (simp add: run(1) evs(1))
    moreover have "0 < j \<longrightarrow> comes_first (is_retraction j) (is_progress (Suc j)) (trace (snd ?run))"
      using order by (simp add: run(1) comes_first_append)
    moreover have "comes_first (is_retraction ?n) is_completion (trace (snd ?run))"
    proof -
      have "?urls = butlast ?urls @ [last ?urls]"
        using assms(3) by simp
      then have "process_urls env (tmpdir_name env) ?n 1 (butlast ?urls @ [last ?urls]) ?L =
          (Inr (), s1)"
        using loop Inr by simp
      then have "list_ex (is_retraction (1 + length (butlast ?urls))) (trace s1)"
        by (rule process_urls_last_retracted)
      moreover have "1 + length (butlast ?urls) = ?n"
        using assms(3) by simp
      ultimately show ?thesis
        using nc by (simp add: run(1) comes_first_append comes_first_none)
    qed
    ultimately show ?thesis by blast
  qed
  show "uncaught_last (fst ?run) (trace (snd ?run))"
    using all by blast
  show "0 < j \<Longrightarrow> comes_first (is_retraction j) (is_progress (Suc j)) (trace (snd ?run))"
    using all by blast
  show "comes_first (is_retraction ?n) is_completion (trace (snd ?run))"
    using all by blast
qed

lemma raise_ends_handler:
  assumes "k < length (trace (snd (handle_document env upd initial)))"
    and "uncaught e (trace (snd (handle_document env upd initial)) ! k)"
    and "\<not> before_loop (trace (snd (handle_document env upd initial)) ! k)"
  shows "Suc k = length (trace (snd (handle_document env upd initial)))
         \<and> fst (handle_document env upd initial) = Inl e"
proof (cases "\<exists>doc. carries_list upd doc \<and> list_is_read env doc
              \<and> filter_urls (file_lines env) \<noteq> []
              \<and> raises env 0 (ReplyText (FoundUrls (length (filter_urls (file_lines env))))) = None")
  case False
  then have "before_loop (trace (snd (handle_document env upd initial)) ! k)"
    using handle_document_short [OF False] assms(1) nth_mem by blast
  then show ?thesis using assms(3) by simp
next
  case True
  then obtain doc where "carries_list upd doc" "list_is_read env doc"
      "filter_urls (file_lines env) \<noteq> []"
      "raises env 0 (ReplyText (FoundUrls (length (filter_urls (file_lines env))))) = None"
    by blast
  then have "uncaught_last (fst (handle_document env upd initial))
      (trace (snd (handle_document env upd initial)))"
    by (rule handle_document_batch_run(1))
  then show ?thesis
    using assms(1,2) by (rule uncaught_last_nth)
qed

text \<open>
  C6. In every run of the handler, whatever the environment does: when the progress
  message of item \<open>j + 1\<close> is created, the progress message of item \<open>j\<close> has been
  retracted before, by a call that returned; and when the batch-completion notification is
  sent, the progress message of the last item has been retracted before.
\<close>

theorem retraction_comes_first:
  assumes "tr = trace (snd (handle_document env upd initial))"
  shows "\<forall>k<length tr.
           (0 < j \<and> is_progress (Suc j) (tr ! k) \<longrightarrow> (\<exists>k'<k. is_retraction j (tr ! k')))
           \<and> (is_completion (tr ! k) \<longrightarrow>
                (\<exists>k'<k. is_retraction (length (filter_urls (file_lines env))) (tr ! k')))"
proof (cases "\<exists>doc. carries_list upd doc \<and> list_is_read env doc
              \<and> filter_urls (file_lines env) \<noteq> []
              \<and> raises env 0 (ReplyText (FoundUrls (length (filter_urls (file_lines env))))) = None")
  case False
  have "\<forall>ev\<in>set tr. before_loop ev"
    unfolding assms using handle_document_short [OF False] .
  moreover have "before_loop ev \<Longrightarrow> \<not> is_completion ev \<and> \<not> is_progress i ev" for ev i
    by (cases "(i, ev)" rule: is_progress.cases; cases ev rule: is_completion.cases) auto
  ultimately show ?thesis
    using nth_mem by blast
next
  case True
  then obtain doc where b: "carries_list upd doc" "list_is_read env doc"
      "filter_urls (file_lines env) \<noteq> []"
      "raises env 0 (ReplyText (FoundUrls (length (filter_urls (file_lines env))))) = None"
    by blast
  have "0 < j \<Longrightarrow> comes_first (is_retraction j) (is_progress (Suc j)) tr"
    unfolding assms using b by (rule handle_document_batch_run(2))
  moreover have "comes_first (is_retraction (length (filter_urls (file_lines env)))) is_completion tr"
    unfolding assms using b by (rule handle_document_batch_run(3))
  ultimately show ?thesis
    unfolding comes_first_iff by blast
qed

text \<open>
  C8, as amended. A failure of the retraction is not caught: in every run, a retraction
  that raises is the last call the handler makes, and the handler ends with that exception.
  No later item is processed and no batch-completion notification is sent.
\<close>

theorem failed_retraction_ends_batch:
  assumes "tr = trace (snd (handle_document env upd initial))"
    and "k < length tr" and "tr ! k = (DeleteMessage t, Raised e)"
  shows "Suc k = length tr \<and> fst (handle_document env upd initial) = Inl e"
proof -
  have "uncaught e (tr ! k)" "\<not> before_loop (tr ! k)"
    using assms(3) by (simp_all add: uncaught_def)
  then show ?thesis
    using assms(1,2) raise_ends_handler [of k env upd e] by simp
qed

text \<open>
  C7, as amended. A non-zero exit status of the tool is caught in the iteration: the
  outcome \<open>TranscodeFailed\<close> is recorded and the failure notice is sent, and the
  iteration ends normally when the messaging calls of the item return. A failure to launch
  the tool, that is any other exception of the tool run, is not caught: in every run it is
  the last call the handler makes, and the handler ends with that exception.
\<close>

theorem exit_status_caught_launch_failure_not:
  assumes "tr = trace (snd (handle_document env upd initial))"
  shows "(raises env j (ReplyText (Downloading j n url)) = None
          \<and> raises env j SendChatAction = None
          \<and> raises env j (SubprocessRun (ffmpeg_cmd url (video_path tmpdir j))) =
              Some (CalledProcessError rc)
          \<and> raises env j (ReplyText (FailedDownload url)) = None
          \<and> raises env j (DeleteMessage (Downloading j n url)) = None
          \<longrightarrow> fst (process_item env tmpdir n j url s) = Inr ()
              \<and> results (snd (process_item env tmpdir n j url s)) = results s @ [TranscodeFailed]
              \<and> (ReplyText (FailedDownload url), Returned)
                   \<in> set (trace (snd (process_item env tmpdir n j url s))))
         \<and> (\<forall>k<length tr. \<forall>cmd e.
               tr ! k = (SubprocessRun cmd, Raised e) \<and> \<not> is_CalledProcessError e
               \<longrightarrow> Suc k = length tr \<and> fst (handle_document env upd initial) = Inl e)"
proof (intro conjI impI allI)
  fix k cmd e
  assume k: "k < length tr"
    and "tr ! k = (SubprocessRun cmd, Raised e) \<and> \<not> is_CalledProcessError e"
  then have "uncaught e (tr ! k)" "\<not> before_loop (tr ! k)"
    by (simp_all add: uncaught_def)
  then have "Suc k = length tr \<and> fst (handle_document env upd initial) = Inl e"
    using assms k raise_ends_handler [of k env upd e] by simp
  then show "Suc k = length tr" "fst (handle_document env upd initial) = Inl e"
    by simp_all
qed (simp_all add: process_item_transcode_failed)

section \<open>Example runs\<close>

lemma message_gone_run:
  "handle_document message_gone_env owner_update initial =
     (Inl (TelegramError ''Message to delete not found''),
      \<lparr>trace =
         [(GetFile ''f1'', Returned),
          (TemporaryDirectory, Returned),
          (DownloadToDrive ''/tmp/job/urls.txt'', Returned),
          (ReadLines ''/tmp/job/urls.txt'', Returned),
          (ReplyText (FoundUrls 3), Returned),
          (ReplyText (Downloading 1 3 ''a.mpd''), Returned),
          (SendChatAction, Returned),
          (SubprocessRun (ffmpeg_cmd ''a.mpd'' ''/tmp/job/video_1.mp4''), Returned),
          (OpenFile ''/tmp/job/video_1.mp4'', Returned),
          (SendVideo ''/tmp/job/video_1.mp4'' 1 3, Returned),
          (DeleteMessage (Downloading 1 3 ''a.mpd''),
           Raised (TelegramError ''Message to delete not found''))],
       results = [Delivered], dirs = [], files = []\<rparr>)"
proof -
  have r: "list_is_read message_gone_env list_document"
    by (simp add: list_is_read_def message_gone_env_def)
  have u: "filter_urls (file_lines message_gone_env) = [''a.mpd'', ''b.M3U8'', ''bad.mpd'']"
    by (simp add: message_gone_env_def example_urls)
  have f: "raises message_gone_env 0
      (ReplyText (FoundUrls (length (filter_urls (file_lines message_gone_env))))) = None"
    by (simp add: message_gone_env_def)
  have ne: "filter_urls (file_lines message_gone_env) \<noteq> []"
    by (simp add: u)
  show ?thesis
    unfolding handle_document_batch [OF owner_carries_list r ne f] u
    by (simp add: process_item_def prog_defs example_defs message_gone_env_def rmtree_def is_below_def)
qed

lemma no_tool_run:
  "handle_document no_tool_env owner_update initial =
     (Inl FileNotFoundError,
      \<lparr>trace =
         [(GetFile ''f1'', Returned),
          (TemporaryDirectory, Returned),
          (DownloadToDrive ''/tmp/job/urls.txt'', Returned),
          (ReadLines ''/tmp/job/urls.txt'', Returned),
          (ReplyText (FoundUrls 3), Returned),
          (ReplyText (Downloading 1 3 ''a.mpd''), Returned),
          (SendChatAction, Returned),
          (SubprocessRun (ffmpeg_cmd ''a.mpd'' ''/tmp/job/video_1.mp4''),
           Raised FileNotFoundError)],
       results = [], dirs = [], files = []\<rparr>)"
proof -
  have r: "list_is_read no_tool_env list_document"
    by (simp add: list_is_read_def no_tool_env_def)
  have u: "filter_urls (file_lines no_tool_env) = [''a.mpd'', ''b.M3U8'', ''bad.mpd'']"
    by (simp add: no_tool_env_def example_urls)
  have f: "raises no_tool_env 0
      (ReplyText (FoundUrls (length (filter_urls (file_lines no_tool_env))))) = None"
    by (simp add: no_tool_env_def)
  have ne: "filter_urls (file_lines no_tool_env) \<noteq> []"
    by (simp add: u)
  show ?thesis
    unfolding handle_document_batch [OF owner_carries_list r ne f] u
    by (simp add: process_item_def prog_defs example_defs no_tool_env_def rmtree_def is_below_def)
qed

lemma third_fails_run:
  "handle_document third_fails_env owner_update initial =
     (Inr (),
      \<lparr>trace =
         [(GetFile ''f1'', Returned),
          (TemporaryDirectory, Returned),
          (DownloadToDrive ''/tmp/job/urls.txt'', Returned),
          (ReadLines ''/tmp/job/urls.txt'', Returned),
          (ReplyText (FoundUrls 3), Returned),
          (ReplyText (Downloading 1 3 ''a.mpd''), Returned),
          (SendChatAction, Returned),
          (SubprocessRun (ffmpeg_cmd ''a.mpd'' ''/tmp/job/video_1.mp4''), Returned),
          (OpenFile ''/tmp/job/video_1.mp4'', Returned),
          (SendVideo ''/tmp/job/video_1.mp4'' 1 3, Returned),
          (DeleteMessage (Downloading 1 3 ''a.mpd''), Returned),
          (ReplyText (Downloading 2 3 ''b.M3U8''), Returned),
          (SendChatAction, Returned),
          (SubprocessRun (ffmpeg_cmd ''b.M3U8'' ''/tmp/job/video_2.mp4''), Returned),
          (OpenFile ''/tmp/job/video_2.mp4'', Returned),
          (SendVideo ''/tmp/job/video_2.mp4'' 2 3, Returned),
          (DeleteMessage (Downloading 2 3 ''b.M3U8''), Returned),
          (ReplyText (Downloading 3 3 ''bad.mpd''), Returned),
          (SendChatAction, Returned),
          (SubprocessRun (ffmpeg_cmd ''bad.mpd'' ''/tmp/job/video_3.mp4''),
           Raised (CalledProcessError 1)),
          (ReplyText (FailedDownload ''bad.mpd''), Returned),
          (DeleteMessage (Downloading 3 3 ''bad.mpd''), Returned),
          (ReplyText AllProcessed, Returned)],
       results = [Delivered, Delivered, TranscodeFailed], dirs = [], files = []\<rparr>)"
proof -
  have r: "list_is_read third_fails_env list_document"
    by (simp add: list_is_read_def third_fails_env_def)
  have u: "filter_urls (file_lines third_fails_env) = [''a.mpd'', ''b.M3U8'', ''bad.mpd'']"
    by (simp add: third_fails_env_def example_urls)
  have f: "raises third_fails_env 0
      (ReplyText (FoundUrls (length (filter_urls (file_lines third_fails_env))))) = None"
    by (simp add: third_fails_env_def)
  have ne: "filter_urls (file_lines third_fails_env) \<noteq> []"
    by (simp add: u)
  show ?thesis
    unfolding handle_document_batch [OF owner_carries_list r ne f] u
    by (simp add: process_item_def prog_defs example_defs third_fails_env_def rmtree_def is_below_def)
qed

text \<open>
  While the loop of that run is under way the workspace holds the list file and the videos
  produced so far; they are gone when the handler is left.
\<close>

lemma third_fails_files:
  "files (snd (process_urls third_fails_env ''/tmp/job'' 3 1
      [''a.mpd'', ''b.M3U8'', ''bad.mpd''] (loop_start third_fails_env list_document))) =
     [''/tmp/job/video_2.mp4'', ''/tmp/job/video_1.mp4'', ''/tmp/job/urls.txt'']"
  by (simp add: process_item_def prog_defs example_defs third_fails_env_def)

text \<open>
  So for that run started in a file system in use: the videos and the list file above are
  gone with the workspace, and what was there before is untouched.
\<close>

theorem job_leaves_no_file_witness:
  "files (snd (process_urls third_fails_env ''/tmp/job'' 3 1
      [''a.mpd'', ''b.M3U8'', ''bad.mpd''] (loop_start third_fails_env list_document))) =
     [''/tmp/job/video_2.mp4'', ''/tmp/job/video_1.mp4'', ''/tmp/job/urls.txt'']
   \<and> dirs (snd (handle_document third_fails_env owner_update busy_state)) =
       [''/tmp'', ''/srv/bot'']
   \<and> files (snd (handle_document third_fails_env owner_update busy_state)) =
       [''/tmp/jobs.log'', ''/srv/bot/main.py'']
   \<and> ''/tmp/job'' \<notin> set (dirs (snd (handle_document third_fails_env owner_update busy_state)))"
proof -
  have t: "tmpdir_name third_fails_env = ''/tmp/job''"
    by (simp add: third_fails_env_def)
  have u: "unused (tmpdir_name third_fails_env) busy_state"
    by (simp add: t unused_def busy_state_def is_below_def)
  have gone: "dirs (snd (handle_document third_fails_env owner_update busy_state)) =
        [''/tmp'', ''/srv/bot'']
      \<and> files (snd (handle_document third_fails_env owner_update busy_state)) =
        [''/tmp/jobs.log'', ''/srv/bot/main.py'']
      \<and> ''/tmp/job'' \<notin> set (dirs (snd (handle_document third_fails_env owner_update busy_state)))"
    using job_leaves_no_file [OF u, of owner_update] by (simp add: t busy_state_def)
  show ?thesis
    by (rule conjI [OF third_fails_files gone])
qed

theorem retraction_comes_first_witness:
  "is_progress 3 (trace (snd (handle_document third_fails_env owner_update initial)) ! 17)
   \<and> (\<exists>k'<17. is_retraction 2
         (trace (snd (handle_document third_fails_env owner_update initial)) ! k'))
   \<and> is_completion (trace (snd (handle_document third_fails_env owner_update initial)) ! 22)
   \<and> (\<exists>k'<22. is_retraction 3
         (trace (snd (handle_document third_fails_env owner_update initial)) ! k'))"
proof -
  let ?tr = "trace (snd (handle_document third_fails_env owner_update initial))"
  have len: "17 < length ?tr" "22 < length ?tr"
    by (simp_all add: third_fails_run)
  have p: "0 < (2::nat) \<and> is_progress (Suc 2) (?tr ! 17)"
    by (simp add: third_fails_run)
  have c: "is_completion (?tr ! 22)"
    by (simp add: third_fails_run)
  have n: "length (filter_urls (file_lines third_fails_env)) = 3"
    by (simp add: third_fails_env_def example_urls)
  note order = retraction_comes_first [OF refl, of third_fails_env owner_update 2]
  have "\<exists>k'<17. is_retraction 2 (?tr ! k')"
    using order len(1) p by blast
  moreover have "\<exists>k'<22. is_retraction 3 (?tr ! k')"
    using order len(2) c unfolding n by blast
  ultimately show ?thesis
    using p c by simp
qed

theorem failed_retraction_ends_batch_witness:
  "trace (snd (handle_document message_gone_env owner_update initial)) ! 10 =
     (DeleteMessage (Downloading 1 3 ''a.mpd''), Raised (TelegramError ''Message to delete not found''))
   \<and> length (trace (snd (handle_document message_gone_env owner_update initial))) = Suc 10
   \<and> fst (handle_document message_gone_env owner_update initial) =
       Inl (TelegramError ''Message to delete not found'')"
proof -
  let ?tr = "trace (snd (handle_document message_gone_env owner_update initial))"
  have k: "10 < length ?tr"
    by (simp add: message_gone_run)
  have d: "?tr ! 10 = (DeleteMessage (Downloading 1 3 ''a.mpd''),
      Raised (TelegramError ''Message to delete not found''))"
    by (simp add: message_gone_run)
  show ?thesis
    using failed_retraction_ends_batch [OF refl k d] d by simp
qed

text \<open>
  C8 as stated fails: when the retraction of the first progress message raises, the
  handler ends with that exception after the first of three items; the second item is not
  started and no batch-completion notification is sent.
\<close>

theorem failed_retraction_stops_batch:
  "fst (handle_document message_gone_env owner_update initial) =
     Inl (TelegramError ''Message to delete not found'')
   \<and> \<not> list_ex (is_progress 2) (trace (snd (handle_document message_gone_env owner_update initial)))
   \<and> \<not> list_ex is_completion (trace (snd (handle_document message_gone_env owner_update initial)))
   \<and> length (filter_urls (file_lines message_gone_env)) = 3"
proof -
  have "length (filter_urls (file_lines message_gone_env)) = 3"
    by (simp add: message_gone_env_def example_urls)
  then show ?thesis
    by (simp add: message_gone_run)
qed

text \<open>
  C7 as stated fails: when the tool cannot be launched, the exception leaves the loop and
  the handler; no outcome is recorded, no failure notice is sent, and the tool run is the
  last call.
\<close>

theorem launch_failure_leaves_loop:
  "fst (handle_document no_tool_env owner_update initial) = Inl FileNotFoundError
   \<and> results (snd (handle_document no_tool_env owner_update initial)) = []
   \<and> last (trace (snd (handle_document no_tool_env owner_update initial))) =
       (SubprocessRun (ffmpeg_cmd ''a.mpd'' ''/tmp/job/video_1.mp4''), Raised FileNotFoundError)
   \<and> \<not> list_ex is_completion (trace (snd (handle_document no_tool_env owner_update initial)))"
  by (simp add: no_tool_run)

theorem exit_status_caught_launch_failure_not_witness:
  "fst (process_item second_fails_env ''/tmp/job'' 3 2 ''b.M3U8'' initial) = Inr ()
   \<and> results (snd (process_item second_fails_env ''/tmp/job'' 3 2 ''b.M3U8'' initial)) =
       results initial @ [TranscodeFailed]
   \<and> (ReplyText (FailedDownload ''b.M3U8''), Returned)
        \<in> set (trace (snd (process_item second_fails_env ''/tmp/job'' 3 2 ''b.M3U8'' initial)))
   \<and> Suc 7 = length (trace (snd (handle_document no_tool_env owner_update initial)))
   \<and> fst (handle_document no_tool_env owner_update initial) = Inl FileNotFoundError"
proof -
  let ?tr = "trace (snd (handle_document no_tool_env owner_update initial))"
  have e: "raises second_fails_env 2 (ReplyText (Downloading 2 3 ''b.M3U8'')) = None
      \<and> raises second_fails_env 2 SendChatAction = None
      \<and> raises second_fails_env 2
          (SubprocessRun (ffmpeg_cmd ''b.M3U8'' (video_path ''/tmp/job'' 2))) =
            Some (CalledProcessError 1)
      \<and> raises second_fails_env 2 (ReplyText (FailedDownload ''b.M3U8'')) = None
      \<and> raises second_fails_env 2 (DeleteMessage (Downloading 2 3 ''b.M3U8'')) = None"
    by (simp add: second_fails_env_def)
  have k: "7 < length ?tr"
    by (simp add: no_tool_run)
  have l: "?tr ! 7 = (SubprocessRun (ffmpeg_cmd ''a.mpd'' ''/tmp/job/video_1.mp4''),
      Raised FileNotFoundError) \<and> \<not> is_CalledProcessError FileNotFoundError"
    by (simp add: no_tool_run)
  have caught: "fst (process_item second_fails_env ''/tmp/job'' 3 2 ''b.M3U8'' initial) = Inr ()
      \<and> results (snd (process_item second_fails_env ''/tmp/job'' 3 2 ''b.M3U8'' initial)) =
          results initial @ [TranscodeFailed]
      \<and> (ReplyText (FailedDownload ''b.M3U8''), Returned)
           \<in> set (trace (snd (process_item second_fails_env ''/tmp/job'' 3 2 ''b.M3U8'' initial)))"
    using exit_status_caught_launch_failure_not [OF refl,
        of second_fails_env 2 3 "''b.M3U8''" "''/tmp/job''" 1 initial owner_update] e
    by blast
  have "Suc 7 = length ?tr \<and> fst (handle_document no_tool_env owner_update initial) =
      Inl FileNotFoundError"
    using exit_status_caught_launch_failure_not [OF refl,
        of no_tool_env 2 3 "''b.M3U8''" "''/tmp/job''" 1 initial owner_update] k l
    by blast
  then show ?thesis
    using caught by blast
qed

theorem every_item_has_an_outcome_witness:
  "fst (handle_document third_fails_env owner_update initial) = Inr ()
   \<and> trace (snd (handle_document third_fails_env owner_update initial)) =
       [(GetFile ''f1'', Returned),
        (TemporaryDirectory, Returned),
        (DownloadToDrive ''/tmp/job/urls.txt'', Returned),
        (ReadLines ''/tmp/job/urls.txt'', Returned),
        (ReplyText (FoundUrls 3), Returned),
        (ReplyText (Downloading 1 3 ''a.mpd''), Returned),
        (SendChatAction, Returned),
        (SubprocessRun (ffmpeg_cmd ''a.mpd'' ''/tmp/job/video_1.mp4''), Returned),
        (OpenFile ''/tmp/job/video_1.mp4'', Returned),
        (SendVideo ''/tmp/job/video_1.mp4'' 1 3, Returned),
        (DeleteMessage (Downloading 1 3 ''a.mpd''), Returned),
        (ReplyText (Downloading 2 3 ''b.M3U8''), Returned),
        (SendChatAction, Returned),
        (SubprocessRun (ffmpeg_cmd ''b.M3U8'' ''/tmp/job/video_2.mp4''), Returned),
        (OpenFile ''/tmp/job/video_2.mp4'', Returned),
        (SendVideo ''/tmp/job/video_2.mp4'' 2 3, Returned),
        (DeleteMessage (Downloading 2 3 ''b.M3U8''), Returned),
        (ReplyText (Downloading 3 3 ''bad.mpd''), Returned),
        (SendChatAction, Returned),
        (SubprocessRun (ffmpeg_cmd ''bad.mpd'' ''/tmp/job/video_3.mp4''),
         Raised (CalledProcessError 1)),
        (ReplyText (FailedDownload ''bad.mpd''), Returned),
        (DeleteMessage (Downloading 3 3 ''bad.mpd''), Returned),
        (ReplyText AllProcessed, Returned)]
   \<and> results (snd (handle_document third_fails_env owner_update initial)) =
       [Delivered, Delivered, TranscodeFailed]
   \<and> length (filter is_completion
         (trace (snd (handle_document third_fails_env owner_update initial)))) = 1"
proof -
  let ?run = "handle_document third_fails_env owner_update initial"
  have r: "list_is_read third_fails_env list_document"
    by (simp add: list_is_read_def third_fails_env_def)
  have u: "[''a.mpd'', ''b.M3U8'', ''bad.mpd''] = filter_urls (file_lines third_fails_env)"
    by (simp add: third_fails_env_def example_urls)
  have n: "[''a.mpd'', ''b.M3U8'', ''bad.mpd''] \<noteq> []"
      "3 = length [''a.mpd'', ''b.M3U8'', ''bad.mpd'']"
    by simp_all
  have f: "raises third_fails_env 0 (ReplyText (FoundUrls 3)) = None"
      "raises third_fails_env 0 (ReplyText AllProcessed) = None"
    by (simp_all add: third_fails_env_def)
  have i: "\<forall>k<3. item_calls_return third_fails_env (tmpdir_name third_fails_env) 3 (Suc k)
             ([''a.mpd'', ''b.M3U8'', ''bad.mpd''] ! k)"
    by (simp add: item_calls_return_def third_fails_env_def)
  have t: "tmpdir_name third_fails_env = ''/tmp/job''"
    by (simp add: third_fails_env_def)
  have up: "[0..<3] = [0, Suc 0, Suc (Suc 0)]"
    by (simp add: eval_nat_numeral)
  have o: "expected_outcome third_fails_env ''/tmp/job'' 3 (Suc 0) ''a.mpd'' = Delivered"
      "expected_outcome third_fails_env ''/tmp/job'' 3 (Suc (Suc 0)) ''b.M3U8'' = Delivered"
      "expected_outcome third_fails_env ''/tmp/job'' 3 (Suc (Suc (Suc 0))) ''bad.mpd'' =
         TranscodeFailed"
    by (simp_all add: expected_outcome_def delivery_error_def third_fails_env_def)
  have ev: "item_events third_fails_env ''/tmp/job'' 3 (Suc 0) ''a.mpd'' =
        [(ReplyText (Downloading 1 3 ''a.mpd''), Returned),
         (SendChatAction, Returned),
         (SubprocessRun (ffmpeg_cmd ''a.mpd'' ''/tmp/job/video_1.mp4''), Returned),
         (OpenFile ''/tmp/job/video_1.mp4'', Returned),
         (SendVideo ''/tmp/job/video_1.mp4'' 1 3, Returned),
         (DeleteMessage (Downloading 1 3 ''a.mpd''), Returned)]"
      "item_events third_fails_env ''/tmp/job'' 3 (Suc (Suc 0)) ''b.M3U8'' =
        [(ReplyText (Downloading 2 3 ''b.M3U8''), Returned),
         (SendChatAction, Returned),
         (SubprocessRun (ffmpeg_cmd ''b.M3U8'' ''/tmp/job/video_2.mp4''), Returned),
         (OpenFile ''/tmp/job/video_2.mp4'', Returned),
         (SendVideo ''/tmp/job/video_2.mp4'' 2 3, Returned),
         (DeleteMessage (Downloading 2 3 ''b.M3U8''), Returned)]"
      "item_events third_fails_env ''/tmp/job'' 3 (Suc (Suc (Suc 0))) ''bad.mpd'' =
        [(ReplyText (Downloading 3 3 ''bad.mpd''), Returned),
         (SendChatAction, Returned),
         (SubprocessRun (ffmpeg_cmd ''bad.mpd'' ''/tmp/job/video_3.mp4''),
          Raised (CalledProcessError 1)),
         (ReplyText (FailedDownload ''bad.mpd''), Returned),
         (DeleteMessage (Downloading 3 3 ''bad.mpd''), Returned)]"
    by (simp_all add: item_events_def delivery_events_def delivery_error_def
        third_fails_env_def example_paths)
  have l: "list_is_read_events third_fails_env list_document =
      [(GetFile ''f1'', Returned),
       (TemporaryDirectory, Returned),
       (DownloadToDrive ''/tmp/job/urls.txt'', Returned),
       (ReadLines ''/tmp/job/urls.txt'', Returned)]"
    by (simp add: list_is_read_events_def urls_txt_def path_join_def list_document_def
        third_fails_env_def)
  note run = every_item_has_an_outcome [OF owner_carries_list r u n f(1) i f(2)]
  have "fst ?run = Inr ()"
    using run by blast
  moreover have "trace (snd ?run) =
      list_is_read_events third_fails_env list_document @ [(ReplyText (FoundUrls 3), Returned)]
      @ concat (map (\<lambda>k. item_events third_fails_env (tmpdir_name third_fails_env) 3 (Suc k)
                       ([''a.mpd'', ''b.M3U8'', ''bad.mpd''] ! k)) [0..<3])
      @ [(ReplyText AllProcessed, Returned)]"
    using run by blast
  moreover have "results (snd ?run) =
      map (\<lambda>k. expected_outcome third_fails_env (tmpdir_name third_fails_env) 3 (Suc k)
                 ([''a.mpd'', ''b.M3U8'', ''bad.mpd''] ! k)) [0..<3]"
    using run by blast
  moreover have "length (filter is_completion (trace (snd ?run))) = 1"
    using run by blast
  ultimately show ?thesis
    by (simp add: t up o ev l)
qed

text \<open>
  C4 as stated fails: items can fail so that the batch ends with them. When the tool
  cannot be launched, the list of three URLs gives no outcome at all, and when the
  retraction of the first progress message raises, it gives one; in both runs the handler
  ends with the exception and no batch-completion notification is sent.
\<close>

theorem failed_item_cuts_batch:
  "length (filter_urls (file_lines no_tool_env)) = 3
   \<and> fst (handle_document no_tool_env owner_update initial) = Inl FileNotFoundError
   \<and> results (snd (handle_document no_tool_env owner_update initial)) = []
   \<and> filter is_completion (trace (snd (handle_document no_tool_env owner_update initial))) = []
   \<and> length (filter_urls (file_lines message_gone_env)) = 3
   \<and> fst (handle_document message_gone_env owner_update initial) =
       Inl (TelegramError ''Message to delete not found'')
   \<and> results (snd (handle_document message_gone_env owner_update initial)) = [Delivered]
   \<and> filter is_completion (trace (snd (handle_document message_gone_env owner_update initial)))
       = []"
proof -
  have "length (filter_urls (file_lines no_tool_env)) = 3"
    by (simp add: no_tool_env_def example_urls)
  moreover have "length (filter_urls (file_lines message_gone_env)) = 3"
    by (simp add: message_gone_env_def example_urls)
  ultimately show ?thesis
    by (simp add: no_tool_run message_gone_run)
qed


end
